theory Spec2Isabelle
  imports Main "HOL-Library.Product_Lexorder"
begin

section \<open>Reference graph in CSR form\<close>

text \<open>
  The vectorized kernels read the graph through the fields of \<open>CSR_char_container\<close>:
  \<open>numVertices\<close>, the in- and out-adjacency in compressed sparse row layout and one
  label character per vertex. The class itself is declared in \<open>csr_char.hpp\<close>; only
  the fields used by \<open>align_vectorized.hpp\<close> appear here. Vertex ids and offsets are
  natural numbers.
\<close>

record CSR_char_container =
  numVertices :: nat
  offsets_in :: "nat list"
  adjcny_in :: "nat list"
  offsets_out :: "nat list"
  adjcny_out :: "nat list"
  vertex_label :: string

text \<open>\<open>Phase1_Vectorized::blockWidth\<close> and \<open>blockHeight\<close>.\<close>

definition blockWidth :: nat where
  "blockWidth = 8"

definition blockHeight :: nat where
  "blockHeight = 16"

text \<open>
  The positions \<open>offsets_in[i] .. offsets_in[i+1]-1\<close> of the in-neighbours of vertex
  \<open>i\<close>, as the loops \<open>for (j = offsets_in[i]; j < offsets_in[i+1]; j++)\<close> visit them,
  and the same for the out-neighbours.
\<close>

definition inEdgeRange :: "CSR_char_container \<Rightarrow> nat \<Rightarrow> nat list" where
  "inEdgeRange g i = [offsets_in g ! i ..< offsets_in g ! (i + 1)]"

definition outEdgeRange :: "CSR_char_container \<Rightarrow> nat \<Rightarrow> nat list" where
  "outEdgeRange g i = [offsets_out g ! i ..< offsets_out g ! (i + 1)]"

definition inNeighbors :: "CSR_char_container \<Rightarrow> nat \<Rightarrow> nat list" where
  "inNeighbors g i = map (\<lambda>j. adjcny_in g ! j) (inEdgeRange g i)"

definition outNeighbors :: "CSR_char_container \<Rightarrow> nat \<Rightarrow> nat list" where
  "outNeighbors g i = map (\<lambda>j. adjcny_out g ! j) (outEdgeRange g i)"

text \<open>
  The in-CSR is well formed when there is one offset per vertex plus a final one, the
  offsets are ascending and stay inside the adjacency array, and every stored neighbour
  is a vertex. The C++ code indexes the vectors without checks, so the kernels are only
  defined on such graphs.
\<close>

definition csr_in_wf :: "CSR_char_container \<Rightarrow> bool" where
  "csr_in_wf g \<longleftrightarrow>
     length (offsets_in g) = numVertices g + 1 \<and>
     length (vertex_label g) = numVertices g \<and>
     (\<forall>i \<in> set [0 ..< numVertices g]. offsets_in g ! i \<le> offsets_in g ! (i + 1)) \<and>
     (\<forall>i \<in> set [0 ..< numVertices g]. offsets_in g ! (i + 1) \<le> length (adjcny_in g)) \<and>
     (\<forall>p \<in> set (adjcny_in g). p < numVertices g)"

text \<open>Topological order: every in-neighbour has a smaller id.\<close>

definition topoSorted :: "CSR_char_container \<Rightarrow> bool" where
  "topoSorted g \<longleftrightarrow> (\<forall>i \<in> set [0 ..< numVertices g]. \<forall>p \<in> set (inNeighbors g i). p < i)"

section \<open>Long-hop classification\<close>

text \<open>
  The test \<open>to_pos - from_pos >= this->blockWidth\<close>. \<open>blockWidth\<close> is a \<open>size_t\<close>, so
  the difference is compared as an unsigned number: when \<open>from_pos\<close> exceeds \<open>to_pos\<close>
  the negative difference wraps to a huge value and the test succeeds.
\<close>

definition hopIsLong :: "nat \<Rightarrow> nat \<Rightarrow> bool" where
  "hopIsLong to_pos from_pos \<longleftrightarrow> (if from_pos \<le> to_pos then blockWidth \<le> to_pos - from_pos else True)"

text \<open>
  \<open>Phase1_Vectorized::computeLongHops\<close>: the outer loop runs over the vertices \<open>i\<close>, the
  inner loop over the in-edges of \<open>i\<close>; a long hop sets \<open>withLongHop[from_pos]\<close>.
\<close>

definition computeLongHops :: "CSR_char_container \<Rightarrow> bool list" where
  "computeLongHops g =
     fold (\<lambda>i. fold (\<lambda>j withLongHop.
                  let from_pos = adjcny_in g ! j; to_pos = i
                  in if hopIsLong to_pos from_pos then withLongHop[from_pos := True] else withLongHop)
               (inEdgeRange g i))
          [0 ..< numVertices g] (replicate (numVertices g) False)"

text \<open>
  \<open>Phase1_Rev_Vectorized::computeLongHops\<close>: the same two loops over the in-edges; a
  long hop sets \<open>withLongHop[to_pos]\<close>.
\<close>

definition computeLongHops_rev :: "CSR_char_container \<Rightarrow> bool list" where
  "computeLongHops_rev g =
     fold (\<lambda>i. fold (\<lambda>j withLongHop.
                  let from_pos = adjcny_in g ! j; to_pos = i
                  in if hopIsLong to_pos from_pos then withLongHop[to_pos := True] else withLongHop)
               (inEdgeRange g i))
          [0 ..< numVertices g] (replicate (numVertices g) False)"

text \<open>The in-edges \<open>(to_pos, j)\<close> in the order the two loops visit them.\<close>

definition inEdgeVisits :: "CSR_char_container \<Rightarrow> (nat \<times> nat) list" where
  "inEdgeVisits g = concat (map (\<lambda>i. map (Pair i) (inEdgeRange g i)) [0 ..< numVertices g])"

text \<open>A chain of nine vertices with one extra edge from vertex 0 to vertex 8.\<close>

definition hopGraph :: CSR_char_container where
  "hopGraph = \<lparr> numVertices = 9,
      offsets_in = [0, 0, 1, 2, 3, 4, 5, 6, 7, 9],
      adjcny_in = [0, 1, 2, 3, 4, 5, 6, 7, 0],
      offsets_out = [0, 2, 3, 4, 5, 6, 7, 8, 9, 9],
      adjcny_out = [1, 8, 2, 3, 4, 5, 6, 7, 8],
      vertex_label = ''ACGTACGTA'' \<rparr>"

section \<open>Scalar Phase 1: the complete DP matrix\<close>

text \<open>
  \<open>SCORE\<close> is declared in \<open>base_types.hpp\<close>; its four constants are parameters here.
  \<open>align.hpp\<close> subtracts \<open>SCORE::ins\<close> and \<open>SCORE::del\<close> and multiplies
  \<open>SCORE::mismatch\<close> by \<open>-1\<close>; \<open>align_vectorized.hpp\<close> adds the same three constants.
\<close>

record SCORE =
  match :: int
  mismatch :: int
  ins :: int
  del :: int

text \<open>
  The fields of \<open>BestScoreInfo\<close> that \<open>alignToDAGLocal_Phase1_Score\<close> writes.
\<close>

record BestScoreInfo =
  score :: int
  vid :: nat
  vertexSeqOffset :: nat
  refColumn :: nat
  qryRow :: nat

text \<open>
  \<open>align.hpp\<close> walks the graph with \<open>graphIterFwd\<close> and \<open>graphIterRev\<close>, declared in
  \<open>graph_iter.hpp\<close>.

  Modelled from the spec: the iterator classes of \<open>graph_iter.hpp\<close> and the container
  of \<open>csr.hpp\<close> are absent. Every vertex carries a single character, so the global
  offset of a vertex (its DP column) is its id, \<open>curChar\<close> is its label, the sequence
  offset inside the vertex is 0, \<open>getNeighborOffsets\<close> yields the ids of its
  in-neighbours, and \<open>totalRefLength()\<close> is the number of vertices. The same CSR record
  as for the vectorized kernels holds the graph.

  \<open>ScoreType\<close> is \<open>int\<close>: the calls \<open>std::max (fromDeletion, 0)\<close> only compile for
  that type. Scores are therefore 32-bit signed integers. The result of every addition,
  subtraction and multiplication is reduced modulo \<open>2^32\<close> into \<open>-2^31 .. 2^31 - 1\<close>
  (\<open>wrap32\<close>), which is what the compiled code does on overflow; the four constants of
  \<open>SCORE\<close> are values of type \<open>int\<close>.
\<close>

definition INT_MAX :: int where
  "INT_MAX = 2147483647"

definition wrap32 :: "int \<Rightarrow> int" where
  "wrap32 x = (x + 2147483648) mod 4294967296 - 2147483648"

definition curChar :: "CSR_char_container \<Rightarrow> nat \<Rightarrow> char" where
  "curChar g j = vertex_label g ! j"

definition getNeighborOffsets :: "CSR_char_container \<Rightarrow> nat \<Rightarrow> nat list" where
  "getNeighborOffsets g j = inNeighbors g j"

definition totalRefLength :: "CSR_char_container \<Rightarrow> nat" where
  "totalRefLength g = numVertices g"

text \<open>
  The row index \<open>(i-1) % 2\<close>. \<open>i\<close> is a \<open>std::size_t\<close>: for \<open>i = 0\<close> the subtraction
  wraps to \<open>2^64 - 1\<close>, an odd number, so the index is 1.
\<close>

definition prevRow :: "nat \<Rightarrow> nat" where
  "prevRow i = (if i = 0 then 1 else (i - 1) mod 2)"

text \<open>The body of the inner loop of \<open>alignToDAGLocal_Phase1_Score\<close> at row \<open>i\<close>, column \<open>j\<close>.\<close>

definition phase1_cell ::
  "SCORE \<Rightarrow> string \<Rightarrow> CSR_char_container \<Rightarrow> nat \<Rightarrow> nat \<Rightarrow>
   int list list \<times> BestScoreInfo \<Rightarrow> int list list \<times> BestScoreInfo" where
  "phase1_cell sc read g i j st =
     (let matrix = fst st; best = snd st;
          fromInsertion = wrap32 (matrix ! prevRow i ! j - ins sc);
          preceedingOffsets = getNeighborOffsets g j;
          matchScore = (if curChar g j = read ! i then match sc else wrap32 (-1 * mismatch sc));
          fromMatch = fold (\<lambda>k fromMatch. max fromMatch (wrap32 (matrix ! prevRow i ! k + matchScore)))
                           preceedingOffsets matchScore;
          fromDeletion = fold (\<lambda>k fromDeletion. max fromDeletion (wrap32 (matrix ! (i mod 2) ! k - del sc)))
                              preceedingOffsets (-1);
          cell = max (max fromInsertion fromMatch) (max fromDeletion 0);
          matrix' = matrix[i mod 2 := (matrix ! (i mod 2))[j := cell]]
      in (matrix',
          if score best < cell
          then best\<lparr>score := cell, vid := j, vertexSeqOffset := 0, refColumn := j, qryRow := i\<rparr>
          else best))"

text \<open>The first \<open>n\<close> iterations of the outer loop over the characters of the read.\<close>

definition phase1_rows ::
  "SCORE \<Rightarrow> string \<Rightarrow> CSR_char_container \<Rightarrow> nat \<Rightarrow>
   int list list \<times> BestScoreInfo \<Rightarrow> int list list \<times> BestScoreInfo" where
  "phase1_rows sc read g n st =
     fold (\<lambda>i. fold (phase1_cell sc read g i) [0 ..< totalRefLength g]) [0 ..< n] st"

definition zeroMatrix :: "nat \<Rightarrow> int list list" where
  "zeroMatrix width = replicate 2 (replicate width 0)"

text \<open>
  \<open>alignToDAGLocal_Phase1_Score (read, graph, best)\<close>: \<open>best\<close> is passed by reference and
  updated in place.
\<close>

definition alignToDAGLocal_Phase1_Score ::
  "SCORE \<Rightarrow> string \<Rightarrow> CSR_char_container \<Rightarrow> BestScoreInfo \<Rightarrow> BestScoreInfo" where
  "alignToDAGLocal_Phase1_Score sc read g best =
     snd (phase1_rows sc read g (length read) (zeroMatrix (totalRefLength g), best))"

text \<open>
  Modelled from the spec: the constructor of \<open>BestScoreInfo\<close> (\<open>base_types.hpp\<close>) is
  absent; a record is initialised to score 0 before Phase 1. The other fields start at 0
  here.
\<close>

definition initBest :: BestScoreInfo where
  "initBest = \<lparr>score = 0, vid = 0, vertexSeqOffset = 0, refColumn = 0, qryRow = 0\<rparr>"

text \<open>
  The value the kernel stores for DP cell \<open>(r, v)\<close>: the entry \<open>matrix[r % 2][v]\<close> once
  the outer loop has finished row \<open>r\<close>.
\<close>

definition dpCell :: "SCORE \<Rightarrow> string \<Rightarrow> CSR_char_container \<Rightarrow> nat \<Rightarrow> nat \<Rightarrow> int" where
  "dpCell sc read g r v =
     fst (phase1_rows sc read g (Suc r) (zeroMatrix (totalRefLength g), initBest)) ! (r mod 2) ! v"

text \<open>
  The state of the double loop when the outer loop has finished \<open>n\<close> rows and the inner
  loop has finished the first \<open>c\<close> columns of row \<open>n\<close>.
\<close>

definition phase1_upto ::
  "SCORE \<Rightarrow> string \<Rightarrow> CSR_char_container \<Rightarrow> nat \<Rightarrow> nat \<Rightarrow>
   int list list \<times> BestScoreInfo \<Rightarrow> int list list \<times> BestScoreInfo" where
  "phase1_upto sc read g n c st =
     fold (phase1_cell sc read g n) [0 ..< c] (phase1_rows sc read g n st)"

text \<open>
  Cell \<open>(r, v)\<close> is already computed when the loops stand at row \<open>n\<close>, column \<open>c\<close>.
\<close>

definition computedBy :: "CSR_char_container \<Rightarrow> nat \<Rightarrow> nat \<Rightarrow> nat \<Rightarrow> nat \<Rightarrow> bool" where
  "computedBy g n c r v \<longleftrightarrow> v < numVertices g \<and> (r < n \<or> (r = n \<and> v < c))"

text \<open>
  The running \<open>best.score\<close> at that moment of a run of the kernel that starts with the
  record \<open>best0\<close>.
\<close>

definition runningBest :: "SCORE \<Rightarrow> string \<Rightarrow> CSR_char_container \<Rightarrow> BestScoreInfo \<Rightarrow> nat \<Rightarrow> nat \<Rightarrow> int" where
  "runningBest sc read g best0 n c =
     score (snd (phase1_upto sc read g n c (zeroMatrix (totalRefLength g), best0)))"

text \<open>A chain graph: vertex \<open>i\<close> carries the \<open>i\<close>-th character and has the edge to \<open>i + 1\<close>.\<close>

definition chainGraph :: "string \<Rightarrow> CSR_char_container" where
  "chainGraph labels =
     (let n = length labels
      in \<lparr> numVertices = n,
           offsets_in = 0 # [0 ..< n],
           adjcny_in = [0 ..< n - 1],
           offsets_out = [0 ..< n] @ [n - 1],
           adjcny_out = [1 ..< n],
           vertex_label = labels \<rparr>)"

text \<open>The scoring scheme of the concrete scenarios: all four constants are 1.\<close>

definition unitScore :: SCORE where
  "unitScore = \<lparr>match = 1, mismatch = 1, ins = 1, del = 1\<rparr>"

text \<open>
  The recurrence of the specification for cell \<open>(r, v)\<close>, given the value \<open>rowAbove p\<close> of
  cell \<open>(r - 1, p)\<close> (0 when \<open>r = 0\<close>) and the value \<open>rowSame p\<close> of cell \<open>(r, p)\<close>:
  \<open>max(0, sub, max over p of rowAbove p + sub, max over p of rowSame p - del, rowAbove v - ins)\<close>
  with \<open>sub = match\<close> if \<open>read[r]\<close> equals \<open>label(v)\<close> and \<open>-mismatch\<close> otherwise.
\<close>

definition specRecurrence ::
  "SCORE \<Rightarrow> string \<Rightarrow> CSR_char_container \<Rightarrow> nat \<Rightarrow> nat \<Rightarrow> (nat \<Rightarrow> int) \<Rightarrow> (nat \<Rightarrow> int) \<Rightarrow> int" where
  "specRecurrence sc read g r v rowAbove rowSame =
     (let sub = (if read ! r = vertex_label g ! v then match sc else - mismatch sc)
      in Max ({0, sub, rowAbove v - ins sc}
              \<union> (\<lambda>p. rowAbove p + sub) ` set (inNeighbors g v)
              \<union> (\<lambda>p. rowSame p - del sc) ` set (inNeighbors g v)))"

text \<open>
  The bounds under which no operation of the kernel overflows: the four constants are
  non-negative values of type \<open>int\<close>, and \<open>(min(|V|, |read|) + 1) * match\<close> still fits.
\<close>

definition scoresFit :: "SCORE \<Rightarrow> CSR_char_container \<Rightarrow> string \<Rightarrow> bool" where
  "scoresFit sc g read \<longleftrightarrow>
     0 \<le> match sc \<and> 0 \<le> mismatch sc \<and> 0 \<le> ins sc \<and> 0 \<le> del sc \<and>
     mismatch sc \<le> INT_MAX \<and> ins sc \<le> INT_MAX \<and> del sc \<le> INT_MAX \<and>
     (int (min (numVertices g) (length read)) + 1) * match sc \<le> INT_MAX"

subsection \<open>The kernel over the mathematical integers\<close>

text \<open>
  The same loops with exact integer arithmetic in place of the 32-bit operations. They
  are the reference for the absence of overflow: under \<open>scoresFit\<close> the 32-bit kernel
  and the exact one go through the same states.
\<close>

definition phase1_cell_exact ::
  "SCORE \<Rightarrow> string \<Rightarrow> CSR_char_container \<Rightarrow> nat \<Rightarrow> nat \<Rightarrow>
   int list list \<times> BestScoreInfo \<Rightarrow> int list list \<times> BestScoreInfo" where
  "phase1_cell_exact sc read g i j st =
     (let matrix = fst st; best = snd st;
          fromInsertion = matrix ! prevRow i ! j - ins sc;
          preceedingOffsets = getNeighborOffsets g j;
          matchScore = (if curChar g j = read ! i then match sc else -1 * mismatch sc);
          fromMatch = fold (\<lambda>k fromMatch. max fromMatch (matrix ! prevRow i ! k + matchScore))
                           preceedingOffsets matchScore;
          fromDeletion = fold (\<lambda>k fromDeletion. max fromDeletion (matrix ! (i mod 2) ! k - del sc))
                              preceedingOffsets (-1);
          cell = max (max fromInsertion fromMatch) (max fromDeletion 0);
          matrix' = matrix[i mod 2 := (matrix ! (i mod 2))[j := cell]]
      in (matrix',
          if score best < cell
          then best\<lparr>score := cell, vid := j, vertexSeqOffset := 0, refColumn := j, qryRow := i\<rparr>
          else best))"

definition phase1_rows_exact ::
  "SCORE \<Rightarrow> string \<Rightarrow> CSR_char_container \<Rightarrow> nat \<Rightarrow>
   int list list \<times> BestScoreInfo \<Rightarrow> int list list \<times> BestScoreInfo" where
  "phase1_rows_exact sc read g n st =
     fold (\<lambda>i. fold (phase1_cell_exact sc read g i) [0 ..< totalRefLength g]) [0 ..< n] st"

definition phase1_upto_exact ::
  "SCORE \<Rightarrow> string \<Rightarrow> CSR_char_container \<Rightarrow> nat \<Rightarrow> nat \<Rightarrow>
   int list list \<times> BestScoreInfo \<Rightarrow> int list list \<times> BestScoreInfo" where
  "phase1_upto_exact sc read g n c st =
     fold (phase1_cell_exact sc read g n) [0 ..< c] (phase1_rows_exact sc read g n st)"

definition dpCell_exact :: "SCORE \<Rightarrow> string \<Rightarrow> CSR_char_container \<Rightarrow> nat \<Rightarrow> nat \<Rightarrow> int" where
  "dpCell_exact sc read g r v =
     fst (phase1_rows_exact sc read g (Suc r) (zeroMatrix (totalRefLength g), initBest)) ! (r mod 2) ! v"

definition runningBest_exact :: "SCORE \<Rightarrow> string \<Rightarrow> CSR_char_container \<Rightarrow> BestScoreInfo \<Rightarrow> nat \<Rightarrow> nat \<Rightarrow> int" where
  "runningBest_exact sc read g best0 n c =
     score (snd (phase1_upto_exact sc read g n c (zeroMatrix (totalRefLength g), best0)))"

text \<open>The two-row matrix of the exact kernel after the first \<open>n\<close> rows, started from zeros.\<close>

definition rowBefore_exact :: "SCORE \<Rightarrow> string \<Rightarrow> CSR_char_container \<Rightarrow> nat \<Rightarrow> int list list" where
  "rowBefore_exact sc read g n = fst (phase1_rows_exact sc read g n (zeroMatrix (totalRefLength g), initBest))"

text \<open>
  The value the exact loop body computes for column \<open>j\<close> of row \<open>i\<close>, as a function of
  the row above (\<open>matrix[(i-1) % 2]\<close>) and of the current row (\<open>matrix[i % 2]\<close>).
\<close>

definition cellFormula ::
  "SCORE \<Rightarrow> string \<Rightarrow> CSR_char_container \<Rightarrow> nat \<Rightarrow> nat \<Rightarrow> int list \<Rightarrow> int list \<Rightarrow> int" where
  "cellFormula sc read g i j rowAbove cur =
     (let matchScore = (if curChar g j = read ! i then match sc else -1 * mismatch sc)
      in max (max (rowAbove ! j - ins sc)
                  (fold (\<lambda>k fromMatch. max fromMatch (rowAbove ! k + matchScore))
                        (getNeighborOffsets g j) matchScore))
             (max (fold (\<lambda>k fromDeletion. max fromDeletion (cur ! k - del sc))
                        (getNeighborOffsets g j) (-1)) 0))"

text \<open>The two-row score matrix of width \<open>w\<close>.\<close>

definition matrixShape :: "nat \<Rightarrow> int list list \<Rightarrow> bool" where
  "matrixShape w m \<longleftrightarrow> length m = 2 \<and> length (m ! 0) = w \<and> length (m ! 1) = w"

section \<open>Phases 3 and 4: slab recomputation and traceback\<close>

text \<open>
  The conversion of a score difference to the \<open>int8_t\<close> entries of
  \<open>completeMatrixLog\<close>: reduction modulo \<open>2^8\<close> into \<open>-128 .. 127\<close>. The scores of
  Phases 3 and 4 are 32-bit integers as in Phase 1.
\<close>

definition int8 :: "int \<Rightarrow> int" where
  "int8 x = (x + 128) mod 256 - 128"

text \<open>
  The body of the inner loop of Phase 3 at row \<open>i\<close> and slab column \<open>j\<close>. The iterator
  \<open>graphIterFwd g(graph, leftMostReachable)\<close> starts at global offset \<open>j0\<close> and is
  advanced once per column, so it stands at global offset \<open>j0 + j\<close>. Predecessor
  offsets \<open>k < j0\<close> are skipped.
\<close>

definition phase3_cell ::
  "SCORE \<Rightarrow> string \<Rightarrow> CSR_char_container \<Rightarrow> nat \<Rightarrow> nat \<Rightarrow> nat \<Rightarrow>
   int list list \<times> int list list \<Rightarrow> int list list \<times> int list list" where
  "phase3_cell sc read g j0 i j st =
     (let matrix = fst st; completeMatrixLog = snd st;
          fromInsertion = wrap32 (matrix ! prevRow i ! j - ins sc);
          preceedingOffsets = getNeighborOffsets g (j0 + j);
          matchScore = (if curChar g (j0 + j) = read ! i then match sc else wrap32 (-1 * mismatch sc));
          fromMatch = fold (\<lambda>k fromMatch.
                              if k \<ge> j0 then max fromMatch (wrap32 (matrix ! prevRow i ! (k - j0) + matchScore))
                              else fromMatch)
                           preceedingOffsets matchScore;
          fromDeletion = fold (\<lambda>k fromDeletion.
                                 if k \<ge> j0 then max fromDeletion (wrap32 (matrix ! (i mod 2) ! (k - j0) - del sc))
                                 else fromDeletion)
                              preceedingOffsets (-1);
          cell = max (max fromInsertion fromMatch) (max fromDeletion 0);
          matrix' = matrix[i mod 2 := (matrix ! (i mod 2))[j := cell]]
      in (matrix',
          completeMatrixLog[i := (completeMatrixLog ! i)[j := int8 (wrap32 (cell - matrix ! prevRow i ! j))]]))"

text \<open>The first \<open>n\<close> rows of the Phase 3 double loop over a slab of the given width.\<close>

definition phase3_rows ::
  "SCORE \<Rightarrow> string \<Rightarrow> CSR_char_container \<Rightarrow> nat \<Rightarrow> nat \<Rightarrow> nat \<Rightarrow>
   int list list \<times> int list list \<Rightarrow> int list list \<times> int list list" where
  "phase3_rows sc read g j0 reducedWidth n st =
     fold (\<lambda>i. fold (phase3_cell sc read g j0 i) [0 ..< reducedWidth]) [0 ..< n] st"

datatype align_failure = AssertFailure | UninitialisedRead

text \<open>
  What Phase 3 leaves for Phase 4: the first slab column \<open>j0\<close>, the slab width, the
  scores of the last row and the vertical differences.
\<close>

record slab =
  slab_j0 :: nat
  reducedWidth :: nat
  finalRow :: "int list"
  completeMatrixLog :: "int list list"

text \<open>
  Modelled from the spec: \<open>totalRefLength(from, to)\<close> of \<open>csr.hpp\<close> is absent. With
  single-character vertices the reference length from vertex \<open>from\<close> to vertex \<open>to\<close>,
  both included, is the number of vertex ids in that range.
\<close>

definition totalRefLengthBetween :: "nat \<Rightarrow> nat \<Rightarrow> nat" where
  "totalRefLengthBetween from_v to_v = to_v + 1 - from_v"

text \<open>
  Phase 3 of \<open>alignToDAGLocal\<close>: the slab starts at vertex \<open>leftMostReachable\<close>, has
  \<open>best.qryRow + 1\<close> rows, and ends with the two assertions on the recomputed score.
  \<open>std::max_element\<close> of the last row is the fold of \<open>max\<close> over it.
\<close>

definition phase3 ::
  "SCORE \<Rightarrow> string \<Rightarrow> CSR_char_container \<Rightarrow> nat \<Rightarrow> BestScoreInfo \<Rightarrow> align_failure + slab" where
  "phase3 sc read g leftMostReachable best =
     (let width = totalRefLengthBetween leftMostReachable (vid best);
          j0 = leftMostReachable;
          reducedHeight = qryRow best + 1;
          st = phase3_rows sc read g j0 width reducedHeight
                 (zeroMatrix width, replicate reducedHeight (replicate width 0));
          lastRow = fst st ! ((reducedHeight - 1) mod 2);
          bestScoreReComputed = fold max (tl lastRow) (hd lastRow)
      in if bestScoreReComputed \<noteq> score best then Inl AssertFailure
         else if bestScoreReComputed \<noteq> lastRow ! (refColumn best - j0) then Inl AssertFailure
         else Inr \<lparr>slab_j0 = j0, reducedWidth = width, finalRow = lastRow,
                    completeMatrixLog = snd st\<rparr>)"

text \<open>
  The state of the traceback loop: the global offset of the reverse iterator \<open>g\<close>, the
  row, the scores of the current row and the edit string collected so far. The column
  \<open>col\<close> is always \<open>g.getGlobalOffset() - j0\<close>.
\<close>

record tbState =
  tb_offset :: nat
  tb_row :: int
  currentRowScores :: "int list"
  cigar :: string

datatype tbOutcome = Done string | Failed align_failure | Next tbState

text \<open>
  One iteration of the \<open>while\<close> loop of Phase 4, entered with \<open>col \<ge> 0\<close> and
  \<open>row \<ge> 0\<close>. \<open>fromDeletionPos\<close> has no initial value in the source; it is \<open>None\<close>
  until the deletion loop assigns it.
\<close>

definition tbStep ::
  "SCORE \<Rightarrow> string \<Rightarrow> CSR_char_container \<Rightarrow> slab \<Rightarrow> tbState \<Rightarrow> tbOutcome" where
  "tbStep sc read g sl s =
     (let j0 = slab_j0 sl;
          col = tb_offset s - j0;
          row = nat (tb_row s);
          cur = currentRowScores s
      in if cur ! col \<le> 0 then Done (cigar s)
         else
           (let aboveRowScores =
                  map (\<lambda>i. wrap32 (cur ! i - completeMatrixLog sl ! row ! i)) [0 ..< reducedWidth sl];
                fromInsertion = wrap32 (aboveRowScores ! col - ins sc);
                preceedingOffsets = getNeighborOffsets g (tb_offset s);
                matchScore = (if curChar g (tb_offset s) = read ! row then match sc
                              else wrap32 (-1 * mismatch sc));
                fromMatchBoth =
                  fold (\<lambda>k fm. if k \<ge> j0 \<and> fst fm < wrap32 (aboveRowScores ! (k - j0) + matchScore)
                                then (wrap32 (aboveRowScores ! (k - j0) + matchScore), k) else fm)
                       preceedingOffsets (matchScore, tb_offset s);
                fromMatch = fst fromMatchBoth; fromMatchPos = snd fromMatchBoth;
                fromDeletionBoth =
                  fold (\<lambda>k fd. if k \<ge> j0 \<and> fst fd < wrap32 (cur ! (k - j0) - del sc)
                                then (wrap32 (cur ! (k - j0) - del sc), Some k) else fd)
                       preceedingOffsets (-1, None);
                fromDeletion = fst fromDeletionBoth; fromDeletionPos = snd fromDeletionBoth
            in if cur ! col = fromMatch
               then
                 (let cigar' = cigar s @ [if matchScore = match sc then CHR ''='' else CHR ''X'']
                  in if fromMatchPos = tb_offset s then Done cigar'
                     else Next \<lparr>tb_offset = fromMatchPos, tb_row = tb_row s - 1,
                                 currentRowScores = aboveRowScores, cigar = cigar'\<rparr>)
               else if cur ! col = fromDeletion
               then
                 (case fromDeletionPos of
                    None \<Rightarrow> Failed UninitialisedRead
                  | Some pos \<Rightarrow> Next \<lparr>tb_offset = pos, tb_row = tb_row s,
                                        currentRowScores = cur, cigar = cigar s @ ''D''\<rparr>)
               else if cur ! col \<noteq> fromInsertion then Failed AssertFailure
               else Next \<lparr>tb_offset = tb_offset s, tb_row = tb_row s - 1,
                           currentRowScores = aboveRowScores, cigar = cigar s @ ''I''\<rparr>))"

text \<open>
  The values \<open>aboveRowScores\<close>, \<open>matchScore\<close> and the pair \<open>(fromMatch, fromMatchPos)\<close>
  of an iteration, as \<open>tbStep\<close> computes them.
\<close>

definition tbAboveRowScores :: "slab \<Rightarrow> tbState \<Rightarrow> int list" where
  "tbAboveRowScores sl s =
     map (\<lambda>i. wrap32 (currentRowScores s ! i - completeMatrixLog sl ! nat (tb_row s) ! i))
         [0 ..< reducedWidth sl]"

definition tbMatchScore :: "SCORE \<Rightarrow> string \<Rightarrow> CSR_char_container \<Rightarrow> tbState \<Rightarrow> int" where
  "tbMatchScore sc read g s =
     (if curChar g (tb_offset s) = read ! nat (tb_row s) then match sc else wrap32 (-1 * mismatch sc))"

definition tbFromMatch :: "SCORE \<Rightarrow> string \<Rightarrow> CSR_char_container \<Rightarrow> slab \<Rightarrow> tbState \<Rightarrow> int \<times> nat" where
  "tbFromMatch sc read g sl s =
     fold (\<lambda>k fm. if k \<ge> slab_j0 sl \<and>
                      fst fm < wrap32 (tbAboveRowScores sl s ! (k - slab_j0 sl) + tbMatchScore sc read g s)
                   then (wrap32 (tbAboveRowScores sl s ! (k - slab_j0 sl) + tbMatchScore sc read g s), k)
                   else fm)
          (getNeighborOffsets g (tb_offset s)) (tbMatchScore sc read g s, tb_offset s)"

text \<open>
  The loop \<open>while (col >= 0 && row >= 0)\<close>. \<open>col\<close> is an \<open>int\<close> holding
  \<open>g.getGlobalOffset() - j0\<close>. The result is the edit string before its reversal.
  Whether the loop ends is not assumed: the result is \<open>None\<close> if it does not.
\<close>

partial_function (option) tbLoop ::
  "SCORE \<Rightarrow> string \<Rightarrow> CSR_char_container \<Rightarrow> slab \<Rightarrow> tbState \<Rightarrow> (align_failure + string) option" where
  "tbLoop sc read g sl s =
     (if int (tb_offset s) - int (slab_j0 sl) \<ge> 0 \<and> tb_row s \<ge> 0
      then (case tbStep sc read g sl s of
              Done c \<Rightarrow> Some (Inr c)
            | Failed e \<Rightarrow> Some (Inl e)
            | Next s' \<Rightarrow> tbLoop sc read g sl s')
      else Some (Inr (cigar s)))"

declare tbLoop.simps [code]

text \<open>
  The start of Phase 4: \<open>graphIterRev g(graph, best)\<close> stands at the best column,
  \<open>currentRowScores = finalRow\<close>, \<open>row = best.qryRow\<close>, and the edit string is empty.
\<close>

definition tbInit :: "slab \<Rightarrow> BestScoreInfo \<Rightarrow> tbState" where
  "tbInit sl best =
     \<lparr>tb_offset = refColumn best, tb_row = int (qryRow best),
      currentRowScores = finalRow sl, cigar = []\<rparr>"

text \<open>
  The second concrete scenario: the read \<open>ACTA\<close> against the chain \<open>ACGTA\<close>, with the
  whole chain as slab.
\<close>

definition exampleBest :: BestScoreInfo where
  "exampleBest = alignToDAGLocal_Phase1_Score unitScore ''ACTA'' (chainGraph ''ACGTA'') initBest"

definition exampleSlab :: slab where
  "exampleSlab = projr (phase3 unitScore ''ACTA'' (chainGraph ''ACGTA'') 0 exampleBest)"

text \<open>
  Three more states of the traceback over the example slab, all in row 0, whose scores
  are \<open>[1, 0, 0, 0, 1]\<close>: on column 1, where the cell is 0; on column 0, where the
  alignment starts with a match; and past the first row.
\<close>

definition exampleStateZero :: tbState where
  "exampleStateZero = \<lparr>tb_offset = 1, tb_row = 0, currentRowScores = [1, 0, 0, 0, 1], cigar = ''==D=''\<rparr>"

definition exampleStateStart :: tbState where
  "exampleStateStart = \<lparr>tb_offset = 0, tb_row = 0, currentRowScores = [1, 0, 0, 0, 1], cigar = ''==D=''\<rparr>"

definition exampleStatePast :: tbState where
  "exampleStatePast = \<lparr>tb_offset = 0, tb_row = - 1, currentRowScores = [0, 0, 0, 0, 0], cigar = ''==D==''\<rparr>"

section \<open>Vectorized Phase 1\<close>

subsection \<open>SIMD registers\<close>

text \<open>
  \<open>SimdInst<T>\<close> exists for \<open>int32_t\<close>, \<open>int16_t\<close> and \<open>int8_t\<close>. A 512-bit register is
  the list of its lanes, lane 0 first; a mask is the list of its bits, bit 0 first. A
  lane holds a signed integer of \<open>laneBits\<close> bits: additions and conversions wrap
  around.
\<close>

datatype simd_type = SimdInt32 | SimdInt16 | SimdInt8

fun laneBits :: "simd_type \<Rightarrow> nat" where
  "laneBits SimdInt32 = 32"
| "laneBits SimdInt16 = 16"
| "laneBits SimdInt8 = 8"

text \<open>
  \<open>numSeqs = SIMD_REG_SIZE / (8 * sizeof(type))\<close> with \<open>SIMD_REG_SIZE = 512\<close>: the
  number of lanes of a register.
\<close>

fun numSeqs :: "simd_type \<Rightarrow> nat" where
  "numSeqs SimdInt32 = 16"
| "numSeqs SimdInt16 = 32"
| "numSeqs SimdInt8 = 64"

text \<open>The smallest and the largest value of a signed integer of \<open>w\<close> bits.\<close>

definition bitsMin :: "nat \<Rightarrow> int" where
  "bitsMin w = (if w = 32 then - 2147483648 else if w = 16 then - 32768 else if w = 8 then - 128
                else - (2 ^ (w - 1)))"

definition bitsMax :: "nat \<Rightarrow> int" where
  "bitsMax w = (if w = 32 then 2147483647 else if w = 16 then 32767 else if w = 8 then 127
                else 2 ^ (w - 1) - 1)"

text \<open>
  Conversion of an integer to a signed integer of \<open>w\<close> bits: a value inside the range is
  kept, any other value is reduced modulo \<open>2^w\<close> into the range.
\<close>

definition wrapBits :: "nat \<Rightarrow> int \<Rightarrow> int" where
  "wrapBits w x =
     (if bitsMin w \<le> x \<and> x \<le> bitsMax w then x
      else (x - bitsMin w) mod (bitsMax w - bitsMin w + 1) + bitsMin w)"

definition wrapLane :: "simd_type \<Rightarrow> int \<Rightarrow> int" where
  "wrapLane T x = wrapBits (laneBits T) x"

definition simd_zero :: "simd_type \<Rightarrow> int list" where
  "simd_zero T = replicate (numSeqs T) 0"

definition simd_set1 :: "simd_type \<Rightarrow> int \<Rightarrow> int list" where
  "simd_set1 T a = replicate (numSeqs T) (wrapLane T a)"

definition simd_add :: "simd_type \<Rightarrow> int list \<Rightarrow> int list \<Rightarrow> int list" where
  "simd_add T a b = map2 (\<lambda>x y. wrapLane T (x + y)) a b"

definition simd_max :: "int list \<Rightarrow> int list \<Rightarrow> int list" where
  "simd_max a b = map2 max a b"

definition simd_cmpeq :: "int list \<Rightarrow> int list \<Rightarrow> bool list" where
  "simd_cmpeq a b = map2 (=) a b"

text \<open>\<open>blend(k, a, b)\<close> takes the lane of \<open>b\<close> where the mask bit is set and of \<open>a\<close> elsewhere.\<close>

definition simd_blend :: "bool list \<Rightarrow> int list \<Rightarrow> int list \<Rightarrow> int list" where
  "simd_blend k a b = map2 (\<lambda>m xy. if m then snd xy else fst xy) k (zip a b)"

definition simd_mask_set1 :: "simd_type \<Rightarrow> int list \<Rightarrow> bool list \<Rightarrow> int \<Rightarrow> int list" where
  "simd_mask_set1 T a k b = map2 (\<lambda>x m. if m then wrapLane T b else x) a k"

text \<open>
  The column registers always have \<open>SIMD_REG_SIZE / 32 = 16\<close> lanes of 32 bits;
  \<open>mask_set1_32\<close> uses the low 16 bits of the mask it is given.
\<close>

definition colValuesPerRegister :: nat where
  "colValuesPerRegister = 16"

definition colRegistersCountPerBatch :: "simd_type \<Rightarrow> nat" where
  "colRegistersCountPerBatch T = numSeqs T div colValuesPerRegister"

definition simd_zero_32 :: "int list" where
  "simd_zero_32 = replicate colValuesPerRegister 0"

definition simd_set1_32 :: "int \<Rightarrow> int list" where
  "simd_set1_32 a = replicate colValuesPerRegister (wrapBits 32 a)"

definition simd_mask_set1_32 :: "int list \<Rightarrow> bool list \<Rightarrow> int \<Rightarrow> int list" where
  "simd_mask_set1_32 a k b = map2 (\<lambda>x m. if m then wrapBits 32 b else x) a k"

definition simd_cmpeq_32 :: "int list \<Rightarrow> int list \<Rightarrow> bool list" where
  "simd_cmpeq_32 a b = map2 (=) a b"

text \<open>
  A character stored into a lane. The conversion from \<open>char\<close> to the lane type is
  one-to-one, so two lanes are equal exactly when the characters are.
\<close>

definition charLane :: "char \<Rightarrow> int" where
  "charLane c = of_char c"

definition DUMMY :: char where
  "DUMMY = CHR ''B''"

subsection \<open>Read batches\<close>

text \<open>
  \<open>sortReadsForLoadBalance\<close>: the pairs \<open>(length, index)\<close> sorted with
  \<open>std::greater\<close>, that is, in descending lexicographic order. The pairs are distinct,
  so the descending order is the reverse of the ascending one. The result is
  \<open>sortedReadOrder\<close>.
\<close>

definition sortReadsForLoadBalance :: "string list \<Rightarrow> nat list" where
  "sortReadsForLoadBalance readSet =
     map snd (rev (sort (map (\<lambda>i. (length (readSet ! i), i)) [0 ..< length readSet])))"

text \<open>
  The round-up \<open>batchLength += blockHeight - 1 - (batchLength - 1) % blockHeight\<close>. For
  length 0 the unsigned \<open>batchLength - 1\<close> wraps to a value that is 15 modulo 16, and
  nothing is added.
\<close>

definition roundUpBlock :: "nat \<Rightarrow> nat" where
  "roundUpBlock len =
     (if len = 0 then 0 else len + (blockHeight - 1 - (len - 1) mod blockHeight))"

text \<open>The characters one batch contributes to \<open>readSetSOA\<close>; \<open>i\<close> is the index of its first read.\<close>

definition soaBatch :: "simd_type \<Rightarrow> string list \<Rightarrow> nat list \<Rightarrow> nat \<Rightarrow> string" where
  "soaBatch T readSet sortedReadOrder i =
     (let readCount = length readSet;
          batchLength = roundUpBlock (length (readSet ! (sortedReadOrder ! i)))
      in concat (map (\<lambda>j. map (\<lambda>k.
                   if i + k < readCount \<and> j < length (readSet ! (sortedReadOrder ! (i + k)))
                   then readSet ! (sortedReadOrder ! (i + k)) ! j
                   else DUMMY) [0 ..< numSeqs T]) [0 ..< batchLength]))"

definition countReadBatches :: "simd_type \<Rightarrow> string list \<Rightarrow> nat" where
  "countReadBatches T readSet = (length readSet + numSeqs T - 1) div numSeqs T"

text \<open>
  \<open>convertToSOA\<close>: \<open>readSetSOA\<close> and \<open>readSetSOAPrefixSum\<close>, one batch after the other.
\<close>

definition convertToSOA :: "simd_type \<Rightarrow> string list \<Rightarrow> nat list \<Rightarrow> string \<times> nat list" where
  "convertToSOA T readSet sortedReadOrder =
     fold (\<lambda>b soa.
             let readSetSOA = fst soa @ soaBatch T readSet sortedReadOrder (b * numSeqs T)
             in (readSetSOA, snd soa @ [length readSetSOA]))
          [0 ..< countReadBatches T readSet] ([], [0])"

subsection \<open>Forward kernel\<close>

text \<open>
  The scratch buffers of a thread and the registers of the batch it works on:
  \<open>nearbyColumns[blockWidth][blockHeight]\<close>, \<open>fartherColumns[numVertices][blockHeight]\<close>
  (only the rows of long-hop vertices point to storage), \<open>lastBatchRow[2][numVertices]\<close>,
  the best score, row and column registers and \<open>currentMax512\<close>.
\<close>

record vecState =
  nearbyColumns :: "int list list list"
  fartherColumns :: "int list list list"
  lastBatchRow :: "int list list list"
  bestScores512 :: "int list"
  bestRows512 :: "int list"
  bestCols512 :: "int list list"
  currentMax512 :: "int list"

text \<open>
  The neighbour loop of the forward kernel at \<open>l = 0\<close>: the row above comes from
  \<open>lastBatchRow[(loopJ - 1) & 1]\<close> (index 1 for \<open>loopJ = 0\<close>, as for \<open>prevRow\<close>), the same
  row from \<open>nearbyColumns\<close> or \<open>fartherColumns\<close>. The test
  \<open>k - adjcny_in[m] < blockWidth\<close> is the negation of \<open>hopIsLong\<close>.
\<close>

definition fwdNeighborsTop ::
  "simd_type \<Rightarrow> SCORE \<Rightarrow> CSR_char_container \<Rightarrow> vecState \<Rightarrow> nat \<Rightarrow> nat \<Rightarrow> nat \<Rightarrow> int list \<Rightarrow> int list \<Rightarrow> int list" where
  "fwdNeighborsTop T sc g st loopJ k l sub512 currentMax =
     fold (\<lambda>m currentMax.
             let substEdit = simd_add T (lastBatchRow st ! prevRow loopJ ! (adjcny_in g ! m)) sub512;
                 currentMax = simd_max currentMax substEdit;
                 delEdit =
                   (if \<not> hopIsLong k (adjcny_in g ! m)
                    then simd_add T (nearbyColumns st ! (adjcny_in g ! m mod blockWidth) ! l)
                                    (simd_set1 T (del sc))
                    else simd_add T (fartherColumns st ! (adjcny_in g ! m) ! l) (simd_set1 T (del sc)))
             in simd_max currentMax delEdit)
          (inEdgeRange g k) currentMax"

text \<open>The neighbour loop at \<open>l > 0\<close>: both rows come from \<open>nearbyColumns\<close> or \<open>fartherColumns\<close>.\<close>

definition fwdNeighborsInner ::
  "simd_type \<Rightarrow> SCORE \<Rightarrow> CSR_char_container \<Rightarrow> vecState \<Rightarrow> nat \<Rightarrow> nat \<Rightarrow> int list \<Rightarrow> int list \<Rightarrow> int list" where
  "fwdNeighborsInner T sc g st k l sub512 currentMax =
     fold (\<lambda>m currentMax.
             let substEdit =
                   (if \<not> hopIsLong k (adjcny_in g ! m)
                    then simd_add T (nearbyColumns st ! (adjcny_in g ! m mod blockWidth) ! (l - 1)) sub512
                    else simd_add T (fartherColumns st ! (adjcny_in g ! m) ! (l - 1)) sub512);
                 delEdit =
                   (if \<not> hopIsLong k (adjcny_in g ! m)
                    then simd_add T (nearbyColumns st ! (adjcny_in g ! m mod blockWidth) ! l)
                                    (simd_set1 T (del sc))
                    else simd_add T (fartherColumns st ! (adjcny_in g ! m) ! l) (simd_set1 T (del sc)));
                 currentMax = simd_max currentMax substEdit
             in simd_max currentMax delEdit)
          (inEdgeRange g k) currentMax"

text \<open>
  The value of \<open>currentMax512\<close> for row \<open>j + l\<close> and vertex \<open>k\<close>, before the best score is
  updated. \<open>readCharsInt\<close> holds the characters of the current row block.
\<close>

definition fwdCellValue ::
  "simd_type \<Rightarrow> SCORE \<Rightarrow> CSR_char_container \<Rightarrow> int list \<Rightarrow> vecState \<Rightarrow> nat \<Rightarrow> nat \<Rightarrow> nat \<Rightarrow> int list" where
  "fwdCellValue T sc g readCharsInt st loopJ k l =
     (let graphChar = simd_set1 T (charLane (vertex_label g ! k));
          readChars = take (numSeqs T) (drop (l * numSeqs T) readCharsInt);
          currentMax = simd_zero T;
          compareChar = simd_cmpeq readChars graphChar;
          sub512 = simd_blend compareChar (simd_set1 T (mismatch sc)) (simd_set1 T (match sc));
          currentMax = simd_max currentMax sub512
      in if l = 0
         then
           (let currentMax = fwdNeighborsTop T sc g st loopJ k l sub512 currentMax;
                insEdit = simd_add T (lastBatchRow st ! prevRow loopJ ! k) (simd_set1 T (ins sc))
            in simd_max currentMax insEdit)
         else
           (let currentMax = fwdNeighborsInner T sc g st k l sub512 currentMax;
                insEdit = simd_add T (nearbyColumns st ! (k mod blockWidth) ! (l - 1)) (simd_set1 T (ins sc))
            in simd_max currentMax insEdit))"

text \<open>
  The update of the best score, row and column registers with the cell value
  \<open>currentMax\<close> of row \<open>row\<close> and vertex \<open>k\<close>. Column register \<open>r\<close> takes the mask
  shifted right by \<open>r * colValuesPerRegister\<close> bits.
\<close>

definition updateBest :: "simd_type \<Rightarrow> nat \<Rightarrow> nat \<Rightarrow> int list \<Rightarrow> vecState \<Rightarrow> vecState" where
  "updateBest T row k currentMax st =
     (let bestScores = simd_max currentMax (bestScores512 st);
          updated = simd_cmpeq currentMax bestScores
      in st\<lparr>bestScores512 := bestScores,
             bestRows512 := simd_mask_set1 T (bestRows512 st) updated (int row),
             bestCols512 :=
               map (\<lambda>r. simd_mask_set1_32 (bestCols512 st ! r)
                                           (drop (r * colValuesPerRegister) updated) (int k))
                   [0 ..< colRegistersCountPerBatch T]\<rparr>)"

text \<open>The stores that end an iteration of the innermost loop.\<close>

definition saveCell :: "bool list \<Rightarrow> nat \<Rightarrow> nat \<Rightarrow> int list \<Rightarrow> vecState \<Rightarrow> vecState" where
  "saveCell withLongHop k l currentMax st =
     st\<lparr>nearbyColumns :=
          (nearbyColumns st)[k mod blockWidth := (nearbyColumns st ! (k mod blockWidth))[l := currentMax]],
        fartherColumns :=
          (if withLongHop ! k
           then (fartherColumns st)[k := (fartherColumns st ! k)[l := currentMax]]
           else fartherColumns st),
        currentMax512 := currentMax\<rparr>"

text \<open>One iteration of the innermost loop of the forward kernel.\<close>

definition fwdCell ::
  "simd_type \<Rightarrow> SCORE \<Rightarrow> CSR_char_container \<Rightarrow> bool list \<Rightarrow> int list \<Rightarrow> nat \<Rightarrow> nat \<Rightarrow> nat \<Rightarrow> vecState \<Rightarrow> vecState" where
  "fwdCell T sc g withLongHop readCharsInt j k l st =
     (let currentMax = fwdCellValue T sc g readCharsInt st (j div blockHeight) k l
      in saveCell withLongHop k l currentMax (updateBest T (j + l) k currentMax st))"

text \<open>
  All rows of the block for vertex \<open>k\<close>, then
  \<open>lastBatchRow[loopJ & 1][k] = currentMax512\<close>.
\<close>

definition fwdVertex ::
  "simd_type \<Rightarrow> SCORE \<Rightarrow> CSR_char_container \<Rightarrow> bool list \<Rightarrow> int list \<Rightarrow> nat \<Rightarrow> nat \<Rightarrow> vecState \<Rightarrow> vecState" where
  "fwdVertex T sc g withLongHop readCharsInt j k st =
     (let st = fold (fwdCell T sc g withLongHop readCharsInt j k) [0 ..< blockHeight] st;
          loopJ = j div blockHeight
      in st\<lparr>lastBatchRow :=
               (lastBatchRow st)[loopJ mod 2 := (lastBatchRow st ! (loopJ mod 2))[k := currentMax512 st]]\<rparr>)"

text \<open>
  The characters of the row block that starts at row \<open>j\<close> of batch \<open>i\<close>, as lanes:
  \<open>readCharsInt[k] = readSetSOA[readSetSOAPrefixSum[i] + j * numSeqs + k]\<close>.
\<close>

definition loadReadChars :: "simd_type \<Rightarrow> string \<Rightarrow> nat list \<Rightarrow> nat \<Rightarrow> nat \<Rightarrow> int list" where
  "loadReadChars T readSetSOA readSetSOAPrefixSum i j =
     map (\<lambda>k. charLane (readSetSOA ! (readSetSOAPrefixSum ! i + j * numSeqs T + k)))
         [0 ..< numSeqs T * blockHeight]"

text \<open>One row block: all vertices in topological order.\<close>

definition fwdBlock ::
  "simd_type \<Rightarrow> SCORE \<Rightarrow> CSR_char_container \<Rightarrow> bool list \<Rightarrow> string \<Rightarrow> nat list \<Rightarrow> nat \<Rightarrow> nat \<Rightarrow> vecState \<Rightarrow> vecState" where
  "fwdBlock T sc g withLongHop readSetSOA readSetSOAPrefixSum i j st =
     fold (fwdVertex T sc g withLongHop (loadReadChars T readSetSOA readSetSOAPrefixSum i j) j)
          [0 ..< numVertices g] st"

text \<open>
  One batch of the forward kernel: the best registers and \<open>lastBatchRow\<close> are reset,
  \<open>nearbyColumns\<close> and \<open>fartherColumns\<close> keep what the thread left in them. The loop
  \<open>for (j = 0; j < qryBatchLength; j += blockHeight)\<close> visits the multiples of
  \<open>blockHeight\<close> below the padded length.
\<close>

definition fwdBatch ::
  "simd_type \<Rightarrow> SCORE \<Rightarrow> CSR_char_container \<Rightarrow> bool list \<Rightarrow> string list \<Rightarrow> nat list \<Rightarrow> string \<Rightarrow> nat list \<Rightarrow>
   nat \<Rightarrow> vecState \<Rightarrow> vecState" where
  "fwdBatch T sc g withLongHop readSet sortedReadOrder readSetSOA readSetSOAPrefixSum i st =
     (let st = st\<lparr>bestScores512 := simd_zero T, bestRows512 := simd_zero T,
                   bestCols512 := replicate (colRegistersCountPerBatch T) simd_zero_32,
                   lastBatchRow := replicate 2 (replicate (numVertices g) (simd_zero T))\<rparr>;
          qryBatchLength = roundUpBlock (length (readSet ! (sortedReadOrder ! (i * numSeqs T))))
      in fold (\<lambda>b. fwdBlock T sc g withLongHop readSetSOA readSetSOAPrefixSum i (b * blockHeight))
              [0 ..< qryBatchLength div blockHeight] st)"

text \<open>
  The buffers a thread allocates before its first batch; the vectors are
  value-initialised.
\<close>

definition freshBuffers :: "simd_type \<Rightarrow> CSR_char_container \<Rightarrow> vecState" where
  "freshBuffers T g =
     \<lparr>nearbyColumns = replicate blockWidth (replicate blockHeight (simd_zero T)),
      fartherColumns = replicate (numVertices g) (replicate blockHeight (simd_zero T)),
      lastBatchRow = replicate 2 (replicate (numVertices g) (simd_zero T)),
      bestScores512 = simd_zero T, bestRows512 = simd_zero T,
      bestCols512 = replicate (colRegistersCountPerBatch T) simd_zero_32,
      currentMax512 = simd_zero T\<rparr>"

text \<open>
  The fields of \<open>BestScoreInfo\<close> that the vectorized wrappers read and write.
\<close>

record BestScoreInfoVec =
  vscore :: int
  refColumnEnd :: int
  qryRowEnd :: int
  refColumnStart :: int
  qryRowStart :: int

text \<open>
  \<open>alignToDAGLocal_Phase1_vectorized\<close> on one thread: the batches in order, every batch
  followed by the stores of its best registers (\<open>bestScores[i]\<close>, \<open>bestRows[i]\<close>, and the
  column registers, whose lanes are concatenated here as the wrapper stores them in
  \<open>storeCols\<close>).
\<close>

definition alignToDAGLocal_Phase1_vectorized ::
  "simd_type \<Rightarrow> SCORE \<Rightarrow> CSR_char_container \<Rightarrow> string list \<Rightarrow> (int list \<times> int list \<times> int list) list" where
  "alignToDAGLocal_Phase1_vectorized T sc g readSet =
     (let sortedReadOrder = sortReadsForLoadBalance readSet;
          soa = convertToSOA T readSet sortedReadOrder;
          withLongHop = computeLongHops g
      in fst (fold (\<lambda>i acc.
                 let st = fwdBatch T sc g withLongHop readSet sortedReadOrder (fst soa) (snd soa) i (snd acc)
                 in (fst acc @ [(bestScores512 st, concat (bestCols512 st), bestRows512 st)], st))
               [0 ..< countReadBatches T readSet] ([], freshBuffers T g)))"

text \<open>
  \<open>alignToDAGLocal_Phase1_vectorized_wrapper\<close>: lane \<open>j\<close> of batch \<open>i\<close> belongs to the read
  \<open>sortedReadOrder[i * numSeqs + j]\<close>.
\<close>

definition alignToDAGLocal_Phase1_vectorized_wrapper ::
  "simd_type \<Rightarrow> SCORE \<Rightarrow> CSR_char_container \<Rightarrow> string list \<Rightarrow> BestScoreInfoVec list \<Rightarrow> BestScoreInfoVec list" where
  "alignToDAGLocal_Phase1_vectorized_wrapper T sc g readSet outputBestScoreVector =
     (let sortedReadOrder = sortReadsForLoadBalance readSet;
          regs = alignToDAGLocal_Phase1_vectorized T sc g readSet
      in fold (\<lambda>i. fold (\<lambda>j out.
                 if i * numSeqs T + j < length readSet
                 then
                   (let originalReadId = sortedReadOrder ! (i * numSeqs T + j);
                        storeScores = fst (regs ! i);
                        storeCols = fst (snd (regs ! i));
                        storeRows = snd (snd (regs ! i))
                    in out[originalReadId := (out ! originalReadId)
                             \<lparr>vscore := storeScores ! j, refColumnEnd := storeCols ! j,
                              qryRowEnd := storeRows ! j\<rparr>])
                 else out) [0 ..< numSeqs T])
              [0 ..< countReadBatches T readSet] outputBestScoreVector)"

text \<open>
  The scoring scheme used with the vectorized kernels in the examples: the kernel adds
  the three penalties, so they are negative.
\<close>

definition vecScore :: SCORE where
  "vecScore = \<lparr>match = 1, mismatch = -1, ins = -1, del = -1\<rparr>"

definition initBestVec :: BestScoreInfoVec where
  "initBestVec = \<lparr>vscore = 0, refColumnEnd = 0, qryRowEnd = 0, refColumnStart = 0, qryRowStart = 0\<rparr>"

subsection \<open>Reverse kernel\<close>

text \<open>
  The neighbour loops of the reverse kernel run over the out-edges of \<open>k\<close>; the test
  \<open>adjcny_out[m] - k < blockWidth\<close> is again the negation of \<open>hopIsLong\<close>.
\<close>

definition revNeighborsTop ::
  "simd_type \<Rightarrow> SCORE \<Rightarrow> CSR_char_container \<Rightarrow> vecState \<Rightarrow> nat \<Rightarrow> nat \<Rightarrow> nat \<Rightarrow> int list \<Rightarrow> int list \<Rightarrow> int list" where
  "revNeighborsTop T sc g st loopJ k l sub512 currentMax =
     fold (\<lambda>m currentMax.
             let substEdit = simd_add T (lastBatchRow st ! prevRow loopJ ! (adjcny_out g ! m)) sub512;
                 currentMax = simd_max currentMax substEdit;
                 delEdit =
                   (if \<not> hopIsLong (adjcny_out g ! m) k
                    then simd_add T (nearbyColumns st ! (adjcny_out g ! m mod blockWidth) ! l)
                                    (simd_set1 T (del sc))
                    else simd_add T (fartherColumns st ! (adjcny_out g ! m) ! l) (simd_set1 T (del sc)))
             in simd_max currentMax delEdit)
          (outEdgeRange g k) currentMax"

definition revNeighborsInner ::
  "simd_type \<Rightarrow> SCORE \<Rightarrow> CSR_char_container \<Rightarrow> vecState \<Rightarrow> nat \<Rightarrow> nat \<Rightarrow> int list \<Rightarrow> int list \<Rightarrow> int list" where
  "revNeighborsInner T sc g st k l sub512 currentMax =
     fold (\<lambda>m currentMax.
             let substEdit =
                   (if \<not> hopIsLong (adjcny_out g ! m) k
                    then simd_add T (nearbyColumns st ! (adjcny_out g ! m mod blockWidth) ! (l - 1)) sub512
                    else simd_add T (fartherColumns st ! (adjcny_out g ! m) ! (l - 1)) sub512);
                 delEdit =
                   (if \<not> hopIsLong (adjcny_out g ! m) k
                    then simd_add T (nearbyColumns st ! (adjcny_out g ! m mod blockWidth) ! l)
                                    (simd_set1 T (del sc))
                    else simd_add T (fartherColumns st ! (adjcny_out g ! m) ! l) (simd_set1 T (del sc)));
                 currentMax = simd_max currentMax substEdit
             in simd_max currentMax delEdit)
          (outEdgeRange g k) currentMax"

definition revCellValue ::
  "simd_type \<Rightarrow> SCORE \<Rightarrow> CSR_char_container \<Rightarrow> int list \<Rightarrow> vecState \<Rightarrow> nat \<Rightarrow> nat \<Rightarrow> nat \<Rightarrow> int list" where
  "revCellValue T sc g readCharsInt st loopJ k l =
     (let graphChar = simd_set1 T (charLane (vertex_label g ! k));
          readChars = take (numSeqs T) (drop (l * numSeqs T) readCharsInt);
          currentMax = simd_zero T;
          compareChar = simd_cmpeq readChars graphChar;
          sub512 = simd_blend compareChar (simd_set1 T (mismatch sc)) (simd_set1 T (match sc));
          currentMax = simd_max currentMax sub512
      in if l = 0
         then
           (let currentMax = revNeighborsTop T sc g st loopJ k l sub512 currentMax;
                insEdit = simd_add T (lastBatchRow st ! prevRow loopJ ! k) (simd_set1 T (ins sc))
            in simd_max currentMax insEdit)
         else
           (let currentMax = revNeighborsInner T sc g st k l sub512 currentMax;
                insEdit = simd_add T (nearbyColumns st ! (k mod blockWidth) ! (l - 1)) (simd_set1 T (ins sc))
            in simd_max currentMax insEdit))"

text \<open>
  The block that overwrites the cell of the forward endpoint: the lanes whose forward
  row equals the current row and whose forward column equals the current column get
  the score \<open>match + 1\<close>. The column masks of the registers are put side by side.
\<close>

definition boostCell :: "simd_type \<Rightarrow> SCORE \<Rightarrow> int list \<Rightarrow> int list list \<Rightarrow> nat \<Rightarrow> nat \<Rightarrow> int list \<Rightarrow> int list" where
  "boostCell T sc fwdBestRows512 fwdBestCols512 row k currentMax =
     (let currentRow = simd_set1 T (int row);
          currentCol = simd_set1_32 (int k);
          compareCell = simd_cmpeq fwdBestRows512 currentRow;
          compareCellByCol =
            concat (map (\<lambda>r. simd_cmpeq_32 (fwdBestCols512 ! r) currentCol)
                        [0 ..< colRegistersCountPerBatch T]);
          compareCell = map2 (\<and>) compareCell compareCellByCol
      in simd_mask_set1 T currentMax compareCell (match sc + 1))"

text \<open>
  One iteration of the innermost loop of the reverse kernel: the best registers are
  updated with the computed value, then the cell is overwritten, then it is stored.
\<close>

definition revCell ::
  "simd_type \<Rightarrow> SCORE \<Rightarrow> CSR_char_container \<Rightarrow> bool list \<Rightarrow> int list \<Rightarrow> int list \<Rightarrow> int list list \<Rightarrow>
   nat \<Rightarrow> nat \<Rightarrow> nat \<Rightarrow> vecState \<Rightarrow> vecState" where
  "revCell T sc g withLongHop readCharsInt fwdBestRows512 fwdBestCols512 j k l st =
     (let currentMax = revCellValue T sc g readCharsInt st (j div blockHeight) k l;
          st = updateBest T (j + l) k currentMax st;
          currentMax = boostCell T sc fwdBestRows512 fwdBestCols512 (j + l) k currentMax
      in saveCell withLongHop k l currentMax st)"

definition revVertex ::
  "simd_type \<Rightarrow> SCORE \<Rightarrow> CSR_char_container \<Rightarrow> bool list \<Rightarrow> int list \<Rightarrow> int list \<Rightarrow> int list list \<Rightarrow>
   nat \<Rightarrow> nat \<Rightarrow> vecState \<Rightarrow> vecState" where
  "revVertex T sc g withLongHop readCharsInt fwdBestRows512 fwdBestCols512 j k st =
     (let st = fold (revCell T sc g withLongHop readCharsInt fwdBestRows512 fwdBestCols512 j k)
                    [0 ..< blockHeight] st;
          loopJ = j div blockHeight
      in st\<lparr>lastBatchRow :=
               (lastBatchRow st)[loopJ mod 2 := (lastBatchRow st ! (loopJ mod 2))[k := currentMax512 st]]\<rparr>)"

text \<open>
  The vertex loop of the reverse kernel, \<open>for (k = numVertices - 1; k >= 0; k--)\<close>: the
  vertices from \<open>numVertices - 1\<close> down to 0.
\<close>

definition verticesDownward :: "nat \<Rightarrow> nat list" where
  "verticesDownward n = rev [0 ..< n]"

text \<open>One row block of the reverse kernel.\<close>

definition revBlock ::
  "simd_type \<Rightarrow> SCORE \<Rightarrow> CSR_char_container \<Rightarrow> bool list \<Rightarrow> string \<Rightarrow> nat list \<Rightarrow> int list \<Rightarrow> int list list \<Rightarrow>
   nat \<Rightarrow> nat \<Rightarrow> vecState \<Rightarrow> vecState" where
  "revBlock T sc g withLongHop readSetSOA readSetSOAPrefixSum fwdBestRows512 fwdBestCols512 i j st =
     fold (revVertex T sc g withLongHop (loadReadChars T readSetSOA readSetSOAPrefixSum i j)
                     fwdBestRows512 fwdBestCols512 j)
          (verticesDownward (numVertices g)) st"

text \<open>
  The forward endpoints of the lanes of batch \<open>i\<close>:
  \<open>fwdBestRows[j] = readSet[id].length() - 1 - qryRowEnd\<close> converted to the lane type
  and \<open>fwdBestCols[j] = refColumnEnd\<close>; the lanes without a read stay 0.
\<close>

definition loadFwdRows :: "simd_type \<Rightarrow> string list \<Rightarrow> nat list \<Rightarrow> BestScoreInfoVec list \<Rightarrow> nat \<Rightarrow> int list" where
  "loadFwdRows T readSet sortedReadOrder outputBestScoreVector i =
     map (\<lambda>j. if i * numSeqs T + j < length readSet
               then (let originalReadId = sortedReadOrder ! (i * numSeqs T + j)
                     in wrapLane T (int (length (readSet ! originalReadId)) - 1
                                    - qryRowEnd (outputBestScoreVector ! originalReadId)))
               else 0) [0 ..< numSeqs T]"

definition loadFwdCols :: "simd_type \<Rightarrow> string list \<Rightarrow> nat list \<Rightarrow> BestScoreInfoVec list \<Rightarrow> nat \<Rightarrow> int list list" where
  "loadFwdCols T readSet sortedReadOrder outputBestScoreVector i =
     map (\<lambda>r. map (\<lambda>c. let j = r * colValuesPerRegister + c
                        in if i * numSeqs T + j < length readSet
                           then wrapBits 32 (refColumnEnd (outputBestScoreVector ! (sortedReadOrder ! (i * numSeqs T + j))))
                           else 0) [0 ..< colValuesPerRegister])
         [0 ..< colRegistersCountPerBatch T]"

definition revBatch ::
  "simd_type \<Rightarrow> SCORE \<Rightarrow> CSR_char_container \<Rightarrow> bool list \<Rightarrow> string list \<Rightarrow> nat list \<Rightarrow> string \<Rightarrow> nat list \<Rightarrow>
   BestScoreInfoVec list \<Rightarrow> nat \<Rightarrow> vecState \<Rightarrow> vecState" where
  "revBatch T sc g withLongHop readSet sortedReadOrder readSetSOA readSetSOAPrefixSum outputBestScoreVector i st =
     (let fwdBestRows512 = loadFwdRows T readSet sortedReadOrder outputBestScoreVector i;
          fwdBestCols512 = loadFwdCols T readSet sortedReadOrder outputBestScoreVector i;
          st = st\<lparr>bestScores512 := simd_zero T, bestRows512 := simd_zero T,
                   bestCols512 := replicate (colRegistersCountPerBatch T) simd_zero_32,
                   lastBatchRow := replicate 2 (replicate (numVertices g) (simd_zero T))\<rparr>;
          qryBatchLength = roundUpBlock (length (readSet ! (sortedReadOrder ! (i * numSeqs T))))
      in fold (\<lambda>b. revBlock T sc g withLongHop readSetSOA readSetSOAPrefixSum
                             fwdBestRows512 fwdBestCols512 i (b * blockHeight))
              [0 ..< qryBatchLength div blockHeight] st)"

text \<open>
  \<open>alignToDAGLocal_Phase1_rev_vectorized\<close> on one thread. \<open>readSet\<close> is the read set the
  object of \<open>Phase1_Rev_Vectorized\<close> was constructed with.
\<close>

definition alignToDAGLocal_Phase1_rev_vectorized ::
  "simd_type \<Rightarrow> SCORE \<Rightarrow> CSR_char_container \<Rightarrow> string list \<Rightarrow> BestScoreInfoVec list \<Rightarrow>
   (int list \<times> int list \<times> int list) list" where
  "alignToDAGLocal_Phase1_rev_vectorized T sc g readSet outputBestScoreVector =
     (let sortedReadOrder = sortReadsForLoadBalance readSet;
          soa = convertToSOA T readSet sortedReadOrder;
          withLongHop = computeLongHops_rev g
      in fst (fold (\<lambda>i acc.
                 let st = revBatch T sc g withLongHop readSet sortedReadOrder (fst soa) (snd soa)
                                   outputBestScoreVector i (snd acc)
                 in (fst acc @ [(bestScores512 st, concat (bestCols512 st), bestRows512 st)], st))
               [0 ..< countReadBatches T readSet] ([], freshBuffers T g)))"

text \<open>
  \<open>alignToDAGLocal_Phase1_rev_vectorized_wrapper\<close>: for every read the assertion
  \<open>outputBestScoreVector[id].score == storeScores[j] - 1\<close>, then the begin position.
\<close>

definition alignToDAGLocal_Phase1_rev_vectorized_wrapper ::
  "simd_type \<Rightarrow> SCORE \<Rightarrow> CSR_char_container \<Rightarrow> string list \<Rightarrow> BestScoreInfoVec list \<Rightarrow>
   align_failure + BestScoreInfoVec list" where
  "alignToDAGLocal_Phase1_rev_vectorized_wrapper T sc g readSet outputBestScoreVector =
     (let sortedReadOrder = sortReadsForLoadBalance readSet;
          regs = alignToDAGLocal_Phase1_rev_vectorized T sc g readSet outputBestScoreVector
      in fold (\<lambda>i. fold (\<lambda>j res.
                 case res of
                   Inl e \<Rightarrow> Inl e
                 | Inr out \<Rightarrow>
                     if i * numSeqs T + j < length readSet
                     then
                       (let originalReadId = sortedReadOrder ! (i * numSeqs T + j);
                            storeScores = fst (regs ! i);
                            storeCols = fst (snd (regs ! i));
                            storeRows = snd (snd (regs ! i))
                        in if vscore (out ! originalReadId) \<noteq> storeScores ! j - 1
                           then Inl AssertFailure
                           else Inr (out[originalReadId := (out ! originalReadId)
                                      \<lparr>refColumnStart := storeCols ! j,
                                       qryRowStart := int (length (readSet ! originalReadId)) - 1
                                                      - storeRows ! j\<rparr>]))
                     else Inr out) [0 ..< numSeqs T])
              [0 ..< countReadBatches T readSet] (Inr outputBestScoreVector))"

text \<open>
  The forward pass on a read set followed by the reverse pass on the reversed reads,
  as the two classes are meant to be used together.
\<close>

definition forwardThenReverse ::
  "simd_type \<Rightarrow> SCORE \<Rightarrow> CSR_char_container \<Rightarrow> string list \<Rightarrow> align_failure + BestScoreInfoVec list" where
  "forwardThenReverse T sc g readSet =
     alignToDAGLocal_Phase1_rev_vectorized_wrapper T sc g (map rev readSet)
       (alignToDAGLocal_Phase1_vectorized_wrapper T sc g readSet
          (replicate (length readSet) initBestVec))"

section \<open>Plain-text graph loader\<close>

text \<open>
  \<open>graphLoader::loadFromTxt\<close> reads the file line by line with \<open>std::getline\<close>,
  splits every vertex line into whitespace-separated tokens and converts the neighbour
  tokens with \<open>std::stoi\<close>. The failures of the C++ code are values here: an
  inaccessible file (\<open>exit(1)\<close>), a failed \<open>assert\<close>, and the two exceptions
  \<open>std::stoi\<close> throws.
\<close>

datatype load_error = NotAccessible | AssertionFailed | InvalidArgument | OutOfRange

definition newline :: char where
  "newline = CHR 0x0A"

definition isspace :: "char \<Rightarrow> bool" where
  "isspace c \<longleftrightarrow> c \<in> set [CHR '' '', CHR 0x09, CHR 0x0A, CHR 0x0B, CHR 0x0C, CHR 0x0D]"

definition isdigit :: "char \<Rightarrow> bool" where
  "isdigit c \<longleftrightarrow> c \<in> set ''0123456789''"

text \<open>
  \<open>std::getline\<close> in a loop: the lines of the file, the newline removed; a final line
  needs no newline, and nothing follows a final newline.
\<close>

fun getlines :: "string \<Rightarrow> string \<Rightarrow> string list" where
  "getlines cur [] = (if cur = [] then [] else [rev cur])"
| "getlines cur (c # cs) =
     (if c = newline then rev cur # getlines [] cs else getlines (c # cur) cs)"

text \<open>\<open>std::istream_iterator<std::string>\<close>: the maximal runs of non-space characters.\<close>

fun splitTokens :: "string \<Rightarrow> string \<Rightarrow> string list" where
  "splitTokens cur [] = (if cur = [] then [] else [rev cur])"
| "splitTokens cur (c # cs) =
     (if isspace c then (if cur = [] then splitTokens [] cs else rev cur # splitTokens [] cs)
      else splitTokens (c # cur) cs)"

definition digitsValue :: "string \<Rightarrow> int" where
  "digitsValue ds = foldl (\<lambda>a c. 10 * a + (of_char c - 48)) 0 ds"

text \<open>
  \<open>std::stoi\<close>: leading white space, an optional sign, then the longest run of decimal
  digits; what follows the digits is ignored. No digit at all throws
  \<open>std::invalid_argument\<close>, a value outside \<open>int\<close> throws \<open>std::out_of_range\<close>.
\<close>

definition stoi :: "string \<Rightarrow> load_error + int" where
  "stoi s =
     (let s1 = dropWhile isspace s;
          neg = (s1 \<noteq> [] \<and> hd s1 = CHR ''-'');
          s2 = (if s1 \<noteq> [] \<and> (hd s1 = CHR ''-'' \<or> hd s1 = CHR ''+'') then tl s1 else s1);
          ds = takeWhile isdigit s2
      in if ds = [] then Inl InvalidArgument
         else let v = (if neg then - digitsValue ds else digitsValue ds)
              in if v < - (2 ^ 31) \<or> 2 ^ 31 \<le> v then Inl OutOfRange else Inr v)"

text \<open>
  \<open>inputString >> totalVertices\<close> for the default \<open>VertexIdType = uint32_t\<close>: leading
  white space is skipped, an optional sign is accepted, and the longest run of decimal
  digits is read. Without a digit the extraction fails and stores 0; a digit string
  beyond the largest \<open>uint32_t\<close> stores that largest value; after a minus sign the
  value is negated in \<open>uint32_t\<close>, that is, modulo \<open>2^32\<close>.
\<close>

definition extractCount :: "string \<Rightarrow> nat" where
  "extractCount s =
     (let s1 = dropWhile isspace s;
          neg = (s1 \<noteq> [] \<and> hd s1 = CHR ''-'');
          s2 = (if s1 \<noteq> [] \<and> (hd s1 = CHR ''-'' \<or> hd s1 = CHR ''+'') then tl s1 else s1);
          ds = takeWhile isdigit s2
      in if ds = [] then 0
         else if digitsValue ds > 4294967295 then nat 4294967295
         else if neg then nat ((- digitsValue ds) mod 4294967296)
         else nat (digitsValue ds))"

text \<open>
  What the loader hands to the graph container: the vertex count given to
  \<open>addVertexCount\<close>, the \<open>(id, sequence)\<close> pairs given to \<open>initVertexSequence\<close>
  and the \<open>edgeVector\<close> given to \<open>initEdges\<close>, with the row counter of the loop.
\<close>

record txtState =
  currentRow :: nat
  totalVertices :: nat
  vertexSeqs :: "(nat \<times> string) list"
  edgeVector :: "(nat \<times> nat) list"

text \<open>
  The \<open>for\<close> loop over all tokens but the last:
  \<open>edgeVector.emplace_back (currentRow - 1, stoi(*it))\<close>. The \<open>int\<close> returned by
  \<open>stoi\<close> is converted to \<open>VertexIdType\<close>, that is, reduced modulo \<open>2^32\<close>.
\<close>

fun neighborEdges :: "nat \<Rightarrow> string list \<Rightarrow> load_error + (nat \<times> nat) list" where
  "neighborEdges v [] = Inr []"
| "neighborEdges v (tok # toks) =
     (case stoi tok of
        Inl e \<Rightarrow> Inl e
      | Inr t \<Rightarrow>
          (case neighborEdges v toks of
             Inl e \<Rightarrow> Inl e
           | Inr es \<Rightarrow> Inr ((v, nat (t mod 2 ^ 32)) # es)))"

text \<open>The body of the \<open>while (std::getline(infile, line))\<close> loop.\<close>

definition parseLine :: "txtState \<Rightarrow> string \<Rightarrow> load_error + txtState" where
  "parseLine st line =
     (if currentRow st = 0
      then Inr (st\<lparr>totalVertices := extractCount line, currentRow := 1\<rparr>)
      else if \<not> currentRow st \<le> totalVertices st then Inl AssertionFailed
      else
        (let tokens = splitTokens [] line
         in if \<not> length tokens > 0 then Inl AssertionFailed
            else
              (case neighborEdges (currentRow st - 1) (butlast tokens) of
                 Inl e \<Rightarrow> Inl e
               | Inr es \<Rightarrow>
                   Inr (st\<lparr>vertexSeqs := vertexSeqs st @ [(currentRow st - 1, last tokens)],
                           edgeVector := edgeVector st @ es,
                           currentRow := currentRow st + 1\<rparr>))))"

fun parseLines :: "txtState \<Rightarrow> string list \<Rightarrow> load_error + txtState" where
  "parseLines st [] = Inr st"
| "parseLines st (line # lines) =
     (case parseLine st line of Inl e \<Rightarrow> Inl e | Inr st' \<Rightarrow> parseLines st' lines)"

text \<open>
  \<open>loadFromTxt\<close> up to the call of \<open>sortVerify\<close>. The argument is the content of
  the file, \<open>None\<close> when \<open>exists(filename)\<close> fails. The two final assertions read
  \<open>numVertices\<close> and \<open>numEdges\<close> of the container, which \<open>addVertexCount\<close> and
  \<open>initEdges\<close> (declared in \<open>csr.hpp\<close>) set from the count and the edge vector.
\<close>

definition loadFromTxt :: "string option \<Rightarrow> load_error + txtState" where
  "loadFromTxt file =
     (case file of
        None \<Rightarrow> Inl NotAccessible
      | Some content \<Rightarrow>
          (case parseLines \<lparr>currentRow = 0, totalVertices = 0, vertexSeqs = [], edgeVector = []\<rparr>
                           (getlines [] content) of
             Inl e \<Rightarrow> Inl e
           | Inr st \<Rightarrow>
               if \<not> totalVertices st > 0 then Inl AssertionFailed
               else if \<not> length (edgeVector st) > 0 then Inl AssertionFailed
               else Inr st))"

text \<open>A two-vertex file: vertex line 1 lists the neighbour token \<open>1\<close>.\<close>

definition txtExample :: string where
  "txtExample = ''2'' @ [newline] @ ''1 A'' @ [newline] @ ''C'' @ [newline]"

text \<open>The same file with a signed vertex count in the header.\<close>

definition txtExampleSigned :: string where
  "txtExampleSigned = ''+2'' @ [newline] @ ''1 A'' @ [newline] @ ''C'' @ [newline]"

section \<open>Properties of the long-hop classification\<close>

lemma fold_nested_concat:
  "fold (\<lambda>i. fold (h i) (r i)) is w = fold (\<lambda>(i, j). h i j) (concat (map (\<lambda>i. map (Pair i) (r i)) is)) w"
proof (induction "is" arbitrary: w)
  case Nil
  show ?case by simp
next
  case (Cons i "is")
  have inner: "fold (\<lambda>(i, j). h i j) (map (Pair i) xs) w' = fold (h i) xs w'" for xs w'
    by (induction xs arbitrary: w') simp_all
  show ?case by (simp add: Cons.IH inner)
qed

lemma fold_mark_length:
  "length (fold (\<lambda>x w. if P x then w[f x := True] else w) xs w) = length w"
  by (induction xs arbitrary: w) simp_all

lemma fold_mark_nth:
  "v < length w \<Longrightarrow>
   fold (\<lambda>x w. if P x then w[f x := True] else w) xs w ! v \<longleftrightarrow> w ! v \<or> (\<exists>x \<in> set xs. P x \<and> f x = v)"
proof (induction xs arbitrary: w)
  case Nil
  show ?case by simp
next
  case (Cons x xs)
  show ?case
  proof (cases "P x")
    case True
    have len: "v < length (w[f x := True])" using Cons.prems by simp
    have upd: "w[f x := True] ! v \<longleftrightarrow> w ! v \<or> f x = v"
      using Cons.prems by (cases "f x = v") simp_all
    show ?thesis using Cons.IH [OF len] True upd by auto
  next
    case False
    with Cons.IH [OF Cons.prems] show ?thesis by auto
  qed
qed

lemma computeLongHops_rev_fold:
  "computeLongHops_rev g =
     fold (\<lambda>x w. if hopIsLong (fst x) (adjcny_in g ! snd x) then w[fst x := True] else w)
          (inEdgeVisits g) (replicate (numVertices g) False)"
  unfolding computeLongHops_rev_def inEdgeVisits_def fold_nested_concat Let_def
  by (simp add: case_prod_unfold)

lemma computeLongHops_fold:
  "computeLongHops g =
     fold (\<lambda>x w. if hopIsLong (fst x) (adjcny_in g ! snd x) then w[adjcny_in g ! snd x := True] else w)
          (inEdgeVisits g) (replicate (numVertices g) False)"
  unfolding computeLongHops_def inEdgeVisits_def fold_nested_concat Let_def
  by (simp add: case_prod_unfold)

lemma inEdgeVisits_iff:
  "(i, j) \<in> set (inEdgeVisits g) \<longleftrightarrow> i < numVertices g \<and> j \<in> set (inEdgeRange g i)"
  by (auto simp: inEdgeVisits_def)

lemma computeLongHops_rev_nth:
  assumes "v < numVertices g"
  shows "computeLongHops_rev g ! v \<longleftrightarrow> (\<exists>u \<in> set (inNeighbors g v). hopIsLong v u)"
proof -
  have "computeLongHops_rev g ! v \<longleftrightarrow>
        (\<exists>x \<in> set (inEdgeVisits g). hopIsLong (fst x) (adjcny_in g ! snd x) \<and> fst x = v)"
    unfolding computeLongHops_rev_fold using assms
    by (subst fold_mark_nth) simp_all
  also have "\<dots> \<longleftrightarrow> (\<exists>j \<in> set (inEdgeRange g v). hopIsLong v (adjcny_in g ! j))"
    using assms by (auto simp: inEdgeVisits_def)
  also have "\<dots> \<longleftrightarrow> (\<exists>u \<in> set (inNeighbors g v). hopIsLong v u)"
    by (simp add: inNeighbors_def)
  finally show ?thesis .
qed

lemma computeLongHops_nth:
  assumes "u < numVertices g"
  shows "computeLongHops g ! u \<longleftrightarrow>
         (\<exists>v < numVertices g. \<exists>j \<in> set (inEdgeRange g v). adjcny_in g ! j = u \<and> hopIsLong v u)"
proof -
  have "computeLongHops g ! u \<longleftrightarrow>
        (\<exists>x \<in> set (inEdgeVisits g). hopIsLong (fst x) (adjcny_in g ! snd x) \<and> adjcny_in g ! snd x = u)"
    unfolding computeLongHops_fold using assms
    by (subst fold_mark_nth) simp_all
  also have "\<dots> \<longleftrightarrow> (\<exists>v < numVertices g. \<exists>j \<in> set (inEdgeRange g v). adjcny_in g ! j = u \<and> hopIsLong v u)"
    by (auto simp: inEdgeVisits_def)
  finally show ?thesis .
qed

lemma length_computeLongHops [simp]: "length (computeLongHops g) = numVertices g"
  by (simp add: computeLongHops_fold fold_mark_length)

lemma length_computeLongHops_rev [simp]: "length (computeLongHops_rev g) = numVertices g"
  by (simp add: computeLongHops_rev_fold fold_mark_length)

section \<open>Claims about the long-hop classification\<close>

text \<open>
  C7 (as stated, refuted). The claim puts the reverse-pass mark on the source of a long
  edge. On the nine-vertex graph with the long edge from vertex 0 to vertex 8, vertex 0
  has an out-edge to vertex 8 of length at least \<open>blockWidth\<close> and stays unmarked,
  while vertex 8, which has no out-edge at all, is marked.
\<close>

theorem computeLongHops_rev_source_counterexample:
  "8 \<in> set (outNeighbors hopGraph 0) \<and> blockWidth \<le> 8 - (0::nat) \<and>
   \<not> computeLongHops_rev hopGraph ! 0 \<and>
   computeLongHops_rev hopGraph ! 8 \<and> outNeighbors hopGraph 8 = []"
  by code_simp

text \<open>
  C7 (amended). In the reverse pass a vertex \<open>v\<close> of a well-formed, topologically
  sorted graph is marked long exactly when some in-edge arrives at \<open>v\<close> from a vertex
  \<open>u\<close> with \<open>v - u \<ge> blockWidth\<close>: the mark is placed on the destination of the long
  edge, the larger id, which is the column the reverse kernel later reads through
  \<open>fartherColumns\<close>.
\<close>

theorem computeLongHops_rev_marks_destination:
  assumes "csr_in_wf g" and "topoSorted g" and "v < numVertices g"
  shows "computeLongHops_rev g ! v \<longleftrightarrow> (\<exists>u \<in> set (inNeighbors g v). blockWidth \<le> v - u)"
proof -
  have "hopIsLong v u \<longleftrightarrow> blockWidth \<le> v - u" if "u \<in> set (inNeighbors g v)" for u
  proof -
    have "u < v" using assms(2,3) that by (simp add: topoSorted_def)
    then show ?thesis by (simp add: hopIsLong_def)
  qed
  then show ?thesis using computeLongHops_rev_nth [OF assms(3)] by blast
qed

theorem computeLongHops_rev_marks_destination_witness:
  "csr_in_wf hopGraph \<and> topoSorted hopGraph \<and> 8 < numVertices hopGraph \<and>
   computeLongHops_rev hopGraph ! 8 \<and> (\<exists>u \<in> set (inNeighbors hopGraph 8). blockWidth \<le> 8 - u)"
proof -
  have wf: "csr_in_wf hopGraph" by code_simp
  have ts: "topoSorted hopGraph" by code_simp
  have lt: "8 < numVertices hopGraph" by code_simp
  have ex: "\<exists>u \<in> set (inNeighbors hopGraph 8). blockWidth \<le> 8 - u" by code_simp
  from computeLongHops_rev_marks_destination [OF wf ts lt] ex wf ts lt show ?thesis by blast
qed

section \<open>Properties of the exact Phase 1 kernel\<close>

lemma fold_max_Max:
  "fold (\<lambda>k a. max a (f k)) ps (a0::int) = Max (insert a0 (f ` set ps))"
proof -
  have "fold (\<lambda>k a. max a (f k)) ps a0 = fold max (map f ps) a0"
    by (induction ps arbitrary: a0) (simp_all add: max.commute)
  also have "\<dots> = Max (set (a0 # map f ps))"
    by (simp only: Max.set_eq_fold)
  finally show ?thesis by simp
qed

lemma fold_max_cong:
  "(\<And>k. k \<in> set ps \<Longrightarrow> f k = h k) \<Longrightarrow>
   fold (\<lambda>k a. max a (f k)) ps (a0::int) = fold (\<lambda>k a. max a (h k)) ps a0"
  by (induction ps arbitrary: a0) simp_all

lemma prevRow_less: "prevRow i < 2"
  by (simp add: prevRow_def)

lemma prevRow_neq: "prevRow i \<noteq> i mod 2"
  by (cases i) (auto simp: prevRow_def mod_Suc)

lemma prevRow_Suc: "prevRow (Suc r) = r mod 2"
  by (simp add: prevRow_def)

lemma phase1_cell_fst:
  "fst (phase1_cell_exact sc read g i j st) =
   (fst st)[i mod 2 := (fst st ! (i mod 2))[j := cellFormula sc read g i j (fst st ! prevRow i) (fst st ! (i mod 2))]]"
  unfolding phase1_cell_exact_def cellFormula_def Let_def fst_conv ..

lemma cellFormula_cong:
  assumes "\<And>k. k \<in> set (inNeighbors g j) \<Longrightarrow> cur ! k = cur' ! k"
  shows "cellFormula sc read g i j rowAbove cur = cellFormula sc read g i j rowAbove cur'"
proof -
  have "fold (\<lambda>k fromDeletion. max fromDeletion (cur ! k - del sc)) (inNeighbors g j) (-1) =
        fold (\<lambda>k fromDeletion. max fromDeletion (cur' ! k - del sc)) (inNeighbors g j) (-1)"
    by (rule fold_max_cong) (simp add: assms)
  then show ?thesis
    by (simp add: cellFormula_def Let_def getNeighborOffsets_def)
qed

lemma topoSorted_pred:
  "topoSorted g \<Longrightarrow> v < numVertices g \<Longrightarrow> p \<in> set (inNeighbors g v) \<Longrightarrow> p < v"
  by (simp add: topoSorted_def)

lemma matrixShape_rows:
  "matrixShape w m \<Longrightarrow> k < 2 \<Longrightarrow> length (m ! k) = w"
  by (cases k) (auto simp: matrixShape_def less_Suc_eq numeral_2_eq_2)

lemma matrixShape_update:
  assumes "matrixShape w m" and "a < 2"
  shows "matrixShape w (m[a := (m ! a)[j := x]])"
proof -
  have "a = 0 \<or> a = 1" using assms(2) by auto
  then show ?thesis using assms(1)
    by (auto simp: matrixShape_def nth_list_update)
qed

text \<open>The state of the inner loop of row \<open>i\<close> after the columns below \<open>c\<close>.\<close>

lemma phase1_row_prefix:
  fixes sc :: SCORE and read :: string and g :: CSR_char_container and i c :: nat
    and m :: "int list list" and b :: BestScoreInfo
  assumes shape: "matrixShape (numVertices g) m" and sorted: "topoSorted g" and c: "c \<le> numVertices g"
  defines "m' \<equiv> fst (fold (phase1_cell_exact sc read g i) [0 ..< c] (m, b))"
  shows "matrixShape (numVertices g) m' \<and> m' ! prevRow i = m ! prevRow i \<and>
         (\<forall>v < c. m' ! (i mod 2) ! v = cellFormula sc read g i v (m ! prevRow i) (m' ! (i mod 2))) \<and>
         (\<forall>v. c \<le> v \<longrightarrow> m' ! (i mod 2) ! v = m ! (i mod 2) ! v)"
  using c unfolding m'_def
proof (induction c)
  case 0
  show ?case using shape by simp
next
  case (Suc c)
  define st where "st = fold (phase1_cell_exact sc read g i) [0 ..< c] (m, b)"
  define mc where "mc = fst st"
  have IH: "matrixShape (numVertices g) mc" "mc ! prevRow i = m ! prevRow i"
    "\<And>v. v < c \<Longrightarrow> mc ! (i mod 2) ! v = cellFormula sc read g i v (m ! prevRow i) (mc ! (i mod 2))"
    "\<And>v. c \<le> v \<Longrightarrow> mc ! (i mod 2) ! v = m ! (i mod 2) ! v"
    using Suc unfolding mc_def st_def by auto
  define x where "x = cellFormula sc read g i c (mc ! prevRow i) (mc ! (i mod 2))"
  define mn where "mn = mc[i mod 2 := (mc ! (i mod 2))[c := x]]"
  have step: "fst (fold (phase1_cell_exact sc read g i) [0 ..< Suc c] (m, b)) = mn"
    by (simp add: phase1_cell_fst mn_def x_def mc_def st_def)
  have lt2: "i mod 2 < 2" by simp
  have len2: "length mc = 2" using IH(1) by (simp add: matrixShape_def)
  have lenrow: "length (mc ! (i mod 2)) = numVertices g"
    using matrixShape_rows [OF IH(1) lt2] .
  have cur: "mn ! (i mod 2) = (mc ! (i mod 2))[c := x]"
    using len2 by (simp add: mn_def)
  have prev: "mn ! prevRow i = mc ! prevRow i"
    using prevRow_neq [of i] by (simp add: mn_def)
  have clt: "c < numVertices g" using Suc.prems by simp
  have form: "cellFormula sc read g i v (m ! prevRow i) (mn ! (i mod 2)) =
              cellFormula sc read g i v (m ! prevRow i) (mc ! (i mod 2))" if "v \<le> c" for v
  proof (rule cellFormula_cong)
    fix k assume "k \<in> set (inNeighbors g v)"
    then have "k < v" using topoSorted_pred [OF sorted] that clt by simp
    then show "mn ! (i mod 2) ! k = mc ! (i mod 2) ! k" using that by (simp add: cur)
  qed
  have a: "matrixShape (numVertices g) mn"
    unfolding mn_def by (rule matrixShape_update [OF IH(1) lt2])
  have b: "mn ! prevRow i = m ! prevRow i" using prev IH(2) by simp
  have c': "mn ! (i mod 2) ! v = cellFormula sc read g i v (m ! prevRow i) (mn ! (i mod 2))" if "v < Suc c" for v
  proof (cases "v = c")
    case True
    then show ?thesis using form [of c] lenrow clt by (simp add: cur x_def IH(2))
  next
    case False
    then have "v < c" using that by simp
    then show ?thesis using form [of v] IH(3) [of v] by (simp add: cur)
  qed
  have d: "mn ! (i mod 2) ! v = m ! (i mod 2) ! v" if "Suc c \<le> v" for v
    using that IH(4) [of v] by (simp add: cur)
  show ?case unfolding step using a b c' d by blast
qed

lemma phase1_rows_Suc:
  "phase1_rows_exact sc read g (Suc n) st =
   fold (phase1_cell_exact sc read g n) [0 ..< numVertices g] (phase1_rows_exact sc read g n st)"
  by (simp add: phase1_rows_exact_def totalRefLength_def)

lemma phase1_rows_0: "phase1_rows_exact sc read g 0 st = st"
  by (simp add: phase1_rows_exact_def)

lemma matrixShape_zero: "matrixShape w (zeroMatrix w)"
  by (simp add: matrixShape_def zeroMatrix_def numeral_2_eq_2)

lemma phase1_rows_shape:
  assumes "matrixShape (numVertices g) (fst st)" and "topoSorted g"
  shows "matrixShape (numVertices g) (fst (phase1_rows_exact sc read g n st))"
proof (induction n)
  case 0
  show ?case using assms(1) by (simp add: phase1_rows_0)
next
  case (Suc n)
  obtain m b where mb: "phase1_rows_exact sc read g n st = (m, b)" by (cases "phase1_rows_exact sc read g n st")
  with Suc have "matrixShape (numVertices g) m" by simp
  from phase1_row_prefix [OF this assms(2) le_refl, of sc read n b]
  show ?case by (simp add: phase1_rows_Suc mb)
qed

text \<open>The matrix after \<open>n\<close> rows, whatever the running best is.\<close>

lemma phase1_cell_fst_indep:
  "fst (phase1_cell_exact sc read g i j (m, b)) = fst (phase1_cell_exact sc read g i j (m, b'))"
  by (simp add: phase1_cell_fst)

lemma phase1_fold_fst_indep:
  "fst (fold (phase1_cell_exact sc read g i) js (m, b)) = fst (fold (phase1_cell_exact sc read g i) js (m, b'))"
proof (induction js arbitrary: m b b')
  case Nil
  show ?case by simp
next
  case (Cons j js)
  obtain m1 b1 where s1: "phase1_cell_exact sc read g i j (m, b) = (m1, b1)" by (cases "phase1_cell_exact sc read g i j (m, b)")
  obtain m2 b2 where s2: "phase1_cell_exact sc read g i j (m, b') = (m2, b2)" by (cases "phase1_cell_exact sc read g i j (m, b')")
  have "m1 = m2" using phase1_cell_fst_indep [of sc read g i j m b b'] s1 s2 by simp
  then show ?case using Cons.IH [of m1 b1 b2] by (simp add: s1 s2)
qed

lemma phase1_rows_fst_indep:
  "fst (phase1_rows_exact sc read g n (m, b)) = fst (phase1_rows_exact sc read g n (m, b'))"
proof (induction n)
  case 0
  show ?case by (simp add: phase1_rows_0)
next
  case (Suc n)
  obtain m1 b1 where s1: "phase1_rows_exact sc read g n (m, b) = (m1, b1)" by (cases "phase1_rows_exact sc read g n (m, b)")
  obtain m2 b2 where s2: "phase1_rows_exact sc read g n (m, b') = (m2, b2)" by (cases "phase1_rows_exact sc read g n (m, b')")
  have "m1 = m2" using Suc s1 s2 by simp
  then show ?case using phase1_fold_fst_indep [of sc read g n _ m1 b1 b2]
    by (simp add: phase1_rows_Suc s1 s2)
qed

lemma dpCell_rowBefore: "dpCell_exact sc read g r v = rowBefore_exact sc read g (Suc r) ! (r mod 2) ! v"
  by (simp add: dpCell_exact_def rowBefore_exact_def)

lemma rowBefore_step:
  assumes "topoSorted g" and "v < numVertices g"
  shows "rowBefore_exact sc read g (Suc r) ! prevRow r = rowBefore_exact sc read g r ! prevRow r"
    and "rowBefore_exact sc read g (Suc r) ! (r mod 2) ! v =
         cellFormula sc read g r v (rowBefore_exact sc read g r ! prevRow r) (rowBefore_exact sc read g (Suc r) ! (r mod 2))"
proof -
  obtain m b where mb: "phase1_rows_exact sc read g r (zeroMatrix (totalRefLength g), initBest) = (m, b)"
    by (cases "phase1_rows_exact sc read g r (zeroMatrix (totalRefLength g), initBest)")
  have "matrixShape (numVertices g) (fst (phase1_rows_exact sc read g r (zeroMatrix (totalRefLength g), initBest)))"
    by (rule phase1_rows_shape) (simp_all add: matrixShape_zero totalRefLength_def assms(1))
  then have shape: "matrixShape (numVertices g) m" by (simp add: mb)
  have m: "rowBefore_exact sc read g r = m" by (simp add: rowBefore_exact_def mb)
  have m': "rowBefore_exact sc read g (Suc r) = fst (fold (phase1_cell_exact sc read g r) [0 ..< numVertices g] (m, b))"
    by (simp add: rowBefore_exact_def phase1_rows_Suc mb)
  note inv = phase1_row_prefix [OF shape assms(1) le_refl, of sc read r b]
  show "rowBefore_exact sc read g (Suc r) ! prevRow r = rowBefore_exact sc read g r ! prevRow r"
    using inv by (simp add: m m')
  show "rowBefore_exact sc read g (Suc r) ! (r mod 2) ! v =
         cellFormula sc read g r v (rowBefore_exact sc read g r ! prevRow r) (rowBefore_exact sc read g (Suc r) ! (r mod 2))"
    using inv assms(2) by (simp add: m m')
qed

lemma Max_insert_absorb:
  fixes S :: "int set"
  assumes "finite S" and "y \<in> S" and "x \<le> y"
  shows "Max (insert x S) = Max S"
proof -
  have "S \<noteq> {}" using assms(2) by auto
  moreover have "x \<le> Max S" using assms by (meson Max_ge order_trans)
  ultimately show ?thesis using assms(1) by (simp add: max_absorb2)
qed

lemma cellFormula_spec:
  assumes ra: "\<And>k. k = v \<or> k \<in> set (inNeighbors g v) \<Longrightarrow> rowAbove ! k = af k"
    and rc: "\<And>k. k \<in> set (inNeighbors g v) \<Longrightarrow> cur ! k = sf k"
  shows "cellFormula sc read g r v rowAbove cur = specRecurrence sc read g r v af sf"
proof -
  define sub where "sub = (if read ! r = vertex_label g ! v then match sc else - mismatch sc)"
  define A where "A = (\<lambda>p. af p + sub) ` set (inNeighbors g v)"
  define B where "B = (\<lambda>p. sf p - del sc) ` set (inNeighbors g v)"
  have fin: "finite A" "finite B" by (simp_all add: A_def B_def)
  have fm: "fold (\<lambda>k fromMatch. max fromMatch (rowAbove ! k + sub)) (inNeighbors g v) sub = Max (insert sub A)"
  proof -
    have "fold (\<lambda>k fromMatch. max fromMatch (rowAbove ! k + sub)) (inNeighbors g v) sub =
          fold (\<lambda>k fromMatch. max fromMatch (af k + sub)) (inNeighbors g v) sub"
      by (rule fold_max_cong) (simp add: ra)
    then show ?thesis by (simp add: fold_max_Max A_def)
  qed
  have fd: "fold (\<lambda>k fromDeletion. max fromDeletion (cur ! k - del sc)) (inNeighbors g v) (-1) = Max (insert (-1) B)"
  proof -
    have "fold (\<lambda>k fromDeletion. max fromDeletion (cur ! k - del sc)) (inNeighbors g v) (-1) =
          fold (\<lambda>k fromDeletion. max fromDeletion (sf k - del sc)) (inNeighbors g v) (-1)"
      by (rule fold_max_cong) (simp add: rc)
    then show ?thesis by (simp add: fold_max_Max B_def)
  qed
  have lhs: "cellFormula sc read g r v rowAbove cur =
             max (max (af v - ins sc) (Max (insert sub A))) (max (Max (insert (-1) B)) 0)"
    unfolding cellFormula_def Let_def getNeighborOffsets_def curChar_def
    using fm fd ra [of v] by (simp add: sub_def eq_commute)
  have "max (max (af v - ins sc) (Max (insert sub A))) (max (Max (insert (-1) B)) 0) =
        max (Max (insert (af v - ins sc) (insert sub A))) (Max (insert 0 (insert (-1) B)))"
    using fin by (simp add: max.commute)
  also have "\<dots> = Max (insert (af v - ins sc) (insert sub A) \<union> insert 0 (insert (-1) B))"
    using fin by (subst Max_Un) simp_all
  also have "insert (af v - ins sc) (insert sub A) \<union> insert 0 (insert (-1) B) =
             insert (-1) ({0, sub, af v - ins sc} \<union> A \<union> B)"
    by auto
  also have "Max \<dots> = Max ({0, sub, af v - ins sc} \<union> A \<union> B)"
    by (rule Max_insert_absorb [where y = 0]) (simp_all add: fin)
  finally show ?thesis
    unfolding lhs specRecurrence_def Let_def sub_def A_def B_def by simp
qed

lemma rowBefore_above:
  assumes "k < numVertices g"
  shows "rowBefore_exact sc read g r ! prevRow r ! k = (if r = 0 then 0 else dpCell_exact sc read g (r - 1) k)"
proof (cases r)
  case 0
  then show ?thesis using assms
    by (simp add: rowBefore_exact_def phase1_rows_0 prevRow_def zeroMatrix_def totalRefLength_def numeral_2_eq_2)
next
  case (Suc r')
  then show ?thesis by (simp add: prevRow_Suc dpCell_rowBefore)
qed

lemma dpCell_recurrence:
  assumes sorted: "topoSorted g" and v: "v < numVertices g"
  shows "dpCell_exact sc read g r v =
         specRecurrence sc read g r v
           (\<lambda>p. if r = 0 then 0 else dpCell_exact sc read g (r - 1) p) (dpCell_exact sc read g r)"
proof -
  have "dpCell_exact sc read g r v =
        cellFormula sc read g r v (rowBefore_exact sc read g r ! prevRow r) (rowBefore_exact sc read g (Suc r) ! (r mod 2))"
    using rowBefore_step(2) [OF sorted v] by (simp add: dpCell_rowBefore)
  also have "\<dots> = specRecurrence sc read g r v
           (\<lambda>p. if r = 0 then 0 else dpCell_exact sc read g (r - 1) p) (dpCell_exact sc read g r)"
  proof (rule cellFormula_spec)
    fix k assume "k = v \<or> k \<in> set (inNeighbors g v)"
    then have "k < numVertices g" using topoSorted_pred [OF sorted v, of k] v by (auto intro: less_trans)
    then show "rowBefore_exact sc read g r ! prevRow r ! k = (if r = 0 then 0 else dpCell_exact sc read g (r - 1) k)"
      by (rule rowBefore_above)
  next
    fix k assume "k \<in> set (inNeighbors g v)"
    show "rowBefore_exact sc read g (Suc r) ! (r mod 2) ! k = dpCell_exact sc read g r k"
      by (simp add: dpCell_rowBefore)
  qed
  finally show ?thesis .
qed

lemma phase1_upto_0: "phase1_upto_exact sc read g n 0 st = phase1_rows_exact sc read g n st"
  by (simp add: phase1_upto_exact_def)

lemma phase1_upto_Suc:
  "phase1_upto_exact sc read g n (Suc c) st = phase1_cell_exact sc read g n c (phase1_upto_exact sc read g n c st)"
  by (simp add: phase1_upto_exact_def)

lemma phase1_upto_full:
  "phase1_upto_exact sc read g n (numVertices g) st = phase1_rows_exact sc read g (Suc n) st"
  by (simp add: phase1_upto_exact_def phase1_rows_Suc)

lemma phase1_cell_snd:
  "snd (phase1_cell_exact sc read g i j st) =
   (if score (snd st) < cellFormula sc read g i j (fst st ! prevRow i) (fst st ! (i mod 2))
    then (snd st)\<lparr>score := cellFormula sc read g i j (fst st ! prevRow i) (fst st ! (i mod 2)),
                    vid := j, vertexSeqOffset := 0, refColumn := j, qryRow := i\<rparr>
    else snd st)"
  unfolding phase1_cell_exact_def cellFormula_def Let_def snd_conv ..

lemma phase1_cell_snd_score:
  "score (snd (phase1_cell_exact sc read g i j st)) =
   max (score (snd st)) (cellFormula sc read g i j (fst st ! prevRow i) (fst st ! (i mod 2)))"
  by (simp add: phase1_cell_snd max_def)

text \<open>Later columns of a row leave the earlier entries of the matrix alone.\<close>

lemma phase1_cell_other_column:
  "v \<noteq> j \<Longrightarrow> fst (phase1_cell_exact sc read g i j st) ! a ! v = fst st ! a ! v"
  by (cases "a = i mod 2"; cases "i mod 2 < length (fst st)")
     (simp_all add: phase1_cell_fst list_update_beyond)

lemma phase1_fold_earlier_column:
  "v < c \<Longrightarrow> fst (fold (phase1_cell_exact sc read g i) [c ..< c + d] st) ! a ! v = fst st ! a ! v"
proof (induction d)
  case 0
  show ?case by simp
next
  case (Suc d)
  then show ?case by (simp add: phase1_cell_other_column)
qed

lemma phase1_upto_fst_indep:
  "fst (phase1_upto_exact sc read g n c (m, b)) = fst (phase1_upto_exact sc read g n c (m, b'))"
proof -
  obtain m1 b1 where s1: "phase1_rows_exact sc read g n (m, b) = (m1, b1)" by (cases "phase1_rows_exact sc read g n (m, b)")
  obtain m2 b2 where s2: "phase1_rows_exact sc read g n (m, b') = (m2, b2)" by (cases "phase1_rows_exact sc read g n (m, b')")
  have "m1 = m2" using phase1_rows_fst_indep [of sc read g n m b b'] s1 s2 by simp
  then show ?thesis using phase1_fold_fst_indep [of sc read g n _ m1 b1 b2]
    by (simp add: phase1_upto_exact_def s1 s2)
qed

text \<open>The value computed at row \<open>n\<close>, column \<open>c\<close> is the cell \<open>dpCell_exact n c\<close>.\<close>

lemma phase1_written_value:
  assumes sorted: "topoSorted g" and c: "c < numVertices g"
  defines "W \<equiv> numVertices g"
  shows "cellFormula sc read g n c
           (fst (phase1_upto_exact sc read g n c (zeroMatrix W, b)) ! prevRow n)
           (fst (phase1_upto_exact sc read g n c (zeroMatrix W, b)) ! (n mod 2)) = dpCell_exact sc read g n c"
proof -
  define st0 where "st0 = phase1_rows_exact sc read g n (zeroMatrix W, initBest)"
  define sc0 where "sc0 = fold (phase1_cell_exact sc read g n) [0 ..< c] st0"
  define mc where "mc = fst sc0"
  have mc: "fst (phase1_upto_exact sc read g n c (zeroMatrix W, b)) = mc"
    using phase1_upto_fst_indep [of sc read g n c "zeroMatrix W" b initBest]
    by (simp add: mc_def sc0_def st0_def phase1_upto_exact_def)
  have shape0: "matrixShape (numVertices g) (fst st0)"
    unfolding st0_def W_def by (rule phase1_rows_shape) (simp_all add: matrixShape_zero sorted)
  obtain m0 b0 where st0: "st0 = (m0, b0)" by (cases st0)
  have shape: "matrixShape (numVertices g) mc"
    using phase1_row_prefix [of g m0 c sc read n b0] shape0 sorted c
    by (simp add: mc_def sc0_def st0)
  have split: "[0 ..< numVertices g] = [0 ..< c] @ c # [Suc c ..< Suc c + (numVertices g - Suc c)]"
    using upt_add_eq_append [of 0 c "numVertices g - c"] c by (simp add: upt_conv_Cons)
  define x where "x = cellFormula sc read g n c (mc ! prevRow n) (mc ! (n mod 2))"
  have full: "fst (phase1_rows_exact sc read g (Suc n) (zeroMatrix W, initBest)) =
              fst (fold (phase1_cell_exact sc read g n) [Suc c ..< Suc c + (numVertices g - Suc c)]
                        (phase1_cell_exact sc read g n c sc0))"
    unfolding phase1_rows_Suc st0_def [symmetric] sc0_def by (subst split) simp
  have "dpCell_exact sc read g n c = fst (phase1_cell_exact sc read g n c sc0) ! (n mod 2) ! c"
    unfolding dpCell_exact_def totalRefLength_def W_def [symmetric] full
    by (rule phase1_fold_earlier_column) simp
  also have "\<dots> = x"
    using shape c matrixShape_rows [OF shape, of "n mod 2"]
    by (simp add: phase1_cell_fst mc_def [symmetric] x_def matrixShape_def)
  finally show ?thesis by (simp add: mc x_def)
qed

lemma specRecurrence_le_iff:
  "specRecurrence sc read g r v af sf \<le> u \<longleftrightarrow>
     0 \<le> u \<and> (if read ! r = vertex_label g ! v then match sc else - mismatch sc) \<le> u \<and>
     af v - ins sc \<le> u \<and>
     (\<forall>p \<in> set (inNeighbors g v). af p + (if read ! r = vertex_label g ! v then match sc else - mismatch sc) \<le> u) \<and>
     (\<forall>p \<in> set (inNeighbors g v). sf p - del sc \<le> u)"
  unfolding specRecurrence_def Let_def
  by (subst Max_le_iff) auto

lemma specRecurrence_nonneg: "0 \<le> specRecurrence sc read g r v af sf"
  unfolding specRecurrence_def Let_def
  by (rule Max_ge) auto

lemma dpCell_nonneg:
  "topoSorted g \<Longrightarrow> v < numVertices g \<Longrightarrow> 0 \<le> dpCell_exact sc read g r v"
  by (subst dpCell_recurrence) (simp_all add: specRecurrence_nonneg)

lemma dpCell_upper_row:
  assumes sorted: "topoSorted g"
    and nonneg: "0 \<le> match sc" "0 \<le> mismatch sc" "0 \<le> ins sc" "0 \<le> del sc"
    and rowAbove: "\<And>p. p < numVertices g \<Longrightarrow>
           (if r = 0 then 0 else dpCell_exact sc read g (r - 1) p) \<le> int r * match sc \<and>
           (if r = 0 then 0 else dpCell_exact sc read g (r - 1) p) \<le> int (Suc p) * match sc"
    and v: "v < numVertices g"
  shows "dpCell_exact sc read g r v \<le> int (Suc r) * match sc \<and> dpCell_exact sc read g r v \<le> int (Suc v) * match sc"
  using v
proof (induction v rule: less_induct)
  case (less v)
  define sub where "sub = (if read ! r = vertex_label g ! v then match sc else - mismatch sc)"
  define af where "af = (\<lambda>p. if r = 0 then 0 else dpCell_exact sc read g (r - 1) p)"
  have sub: "sub \<le> match sc" using nonneg by (simp add: sub_def)
  have Mr: "int (Suc r) * match sc = int r * match sc + match sc" by (simp add: algebra_simps)
  have Mv: "int (Suc v) * match sc = int v * match sc + match sc" by (simp add: algebra_simps)
  have Mr0: "0 \<le> int r * match sc" and Mv0: "0 \<le> int v * match sc" using nonneg(1) by simp_all
  have pred: "p < v \<and> p < numVertices g \<and> int (Suc p) * match sc \<le> int v * match sc"
    if "p \<in> set (inNeighbors g v)" for p
  proof -
    have pv: "p < v" using topoSorted_pred [OF sorted less.prems that] .
    then have "int (Suc p) \<le> int v" by simp
    then have "int (Suc p) * match sc \<le> int v * match sc" using nonneg(1) by (rule mult_right_mono)
    with pv less.prems show ?thesis by simp
  qed
  have ab: "af p \<le> int r * match sc \<and> af p \<le> int (Suc p) * match sc" if "p < numVertices g" for p
    using rowAbove [OF that] by (simp add: af_def)
  have eq: "dpCell_exact sc read g r v = specRecurrence sc read g r v af (dpCell_exact sc read g r)"
    unfolding af_def by (rule dpCell_recurrence [OF sorted less.prems])
  have "specRecurrence sc read g r v af (dpCell_exact sc read g r) \<le> int (Suc r) * match sc"
    unfolding specRecurrence_le_iff sub_def [symmetric]
  proof (intro conjI ballI)
    show "0 \<le> int (Suc r) * match sc" using Mr Mr0 nonneg(1) by simp
    show "sub \<le> int (Suc r) * match sc" using Mr Mr0 sub by simp
    show "af v - ins sc \<le> int (Suc r) * match sc" using ab [OF less.prems] Mr nonneg by simp
    show "af p + sub \<le> int (Suc r) * match sc" if "p \<in> set (inNeighbors g v)" for p
      using ab [of p] pred [OF that] Mr sub by simp
    show "dpCell_exact sc read g r p - del sc \<le> int (Suc r) * match sc" if "p \<in> set (inNeighbors g v)" for p
      using less.IH [of p] pred [OF that] nonneg by simp
  qed
  moreover have "specRecurrence sc read g r v af (dpCell_exact sc read g r) \<le> int (Suc v) * match sc"
    unfolding specRecurrence_le_iff sub_def [symmetric]
  proof (intro conjI ballI)
    show "0 \<le> int (Suc v) * match sc" using Mv Mv0 nonneg(1) by simp
    show "sub \<le> int (Suc v) * match sc" using Mv Mv0 sub by simp
    show "af v - ins sc \<le> int (Suc v) * match sc" using ab [OF less.prems] nonneg by simp
    show "af p + sub \<le> int (Suc v) * match sc" if "p \<in> set (inNeighbors g v)" for p
      using ab [of p] pred [OF that] Mv sub by simp
    show "dpCell_exact sc read g r p - del sc \<le> int (Suc v) * match sc" if "p \<in> set (inNeighbors g v)" for p
      using less.IH [of p] pred [OF that] Mv nonneg by simp
  qed
  ultimately show ?case by (simp add: eq)
qed

lemma dpCell_upper:
  assumes sorted: "topoSorted g"
    and nonneg: "0 \<le> match sc" "0 \<le> mismatch sc" "0 \<le> ins sc" "0 \<le> del sc"
    and v: "v < numVertices g"
  shows "dpCell_exact sc read g r v \<le> int (Suc r) * match sc \<and> dpCell_exact sc read g r v \<le> int (Suc v) * match sc"
  using v
proof (induction r arbitrary: v)
  case 0
  show ?case
    by (rule dpCell_upper_row [OF sorted nonneg _ "0.prems"]) (simp add: nonneg(1))
next
  case (Suc r)
  show ?case
  proof (rule dpCell_upper_row [OF sorted nonneg _ Suc.prems])
    fix p assume "p < numVertices g"
    from Suc.IH [OF this]
    show "(if Suc r = 0 then 0 else dpCell_exact sc read g (Suc r - 1) p) \<le> int (Suc r) * match sc \<and>
          (if Suc r = 0 then 0 else dpCell_exact sc read g (Suc r - 1) p) \<le> int (Suc p) * match sc"
      by simp
  qed
qed

lemma dpCell_bound:
  assumes sorted: "topoSorted g"
    and nonneg: "0 \<le> match sc" "0 \<le> mismatch sc" "0 \<le> ins sc" "0 \<le> del sc"
    and v: "v < numVertices g" and r: "r < length read"
  shows "dpCell_exact sc read g r v \<le> int (min (numVertices g) (length read)) * match sc"
proof (cases "numVertices g \<le> length read")
  case True
  have "int (Suc v) \<le> int (numVertices g)" using v by simp
  then have "int (Suc v) * match sc \<le> int (numVertices g) * match sc"
    using nonneg(1) by (rule mult_right_mono)
  with dpCell_upper [OF sorted nonneg v, of read r] True show ?thesis by (simp add: min_def)
next
  case False
  have "int (Suc r) \<le> int (length read)" using r by simp
  then have "int (Suc r) * match sc \<le> int (length read) * match sc"
    using nonneg(1) by (rule mult_right_mono)
  with dpCell_upper [OF sorted nonneg v, of read r] False show ?thesis by (simp add: min_def)
qed

lemma phase1_best_step:
  assumes "topoSorted g" and "c < numVertices g"
  shows "score (snd (phase1_upto_exact sc read g n (Suc c) (zeroMatrix (numVertices g), b0))) =
         max (score (snd (phase1_upto_exact sc read g n c (zeroMatrix (numVertices g), b0)))) (dpCell_exact sc read g n c)"
  by (simp add: phase1_upto_Suc phase1_cell_snd_score phase1_written_value [OF assms])

lemma phase1_best_row:
  "phase1_upto_exact sc read g (Suc n) 0 st = phase1_upto_exact sc read g n (numVertices g) st"
  by (simp add: phase1_upto_0 phase1_upto_full)

lemma computedBy_Suc:
  "c < numVertices g \<Longrightarrow> computedBy g n (Suc c) r v \<longleftrightarrow> computedBy g n c r v \<or> (r = n \<and> v = c)"
  by (auto simp: computedBy_def)

lemma computedBy_row:
  "computedBy g (Suc n) 0 r v \<longleftrightarrow> computedBy g n (numVertices g) r v"
  by (auto simp: computedBy_def)

lemma runningBest_step:
  assumes "topoSorted g" and "c < numVertices g"
  shows "runningBest_exact sc read g b0 n (Suc c) = max (runningBest_exact sc read g b0 n c) (dpCell_exact sc read g n c)"
  unfolding runningBest_exact_def totalRefLength_def by (rule phase1_best_step [OF assms])

lemma runningBest_row: "runningBest_exact sc read g b0 (Suc n) 0 = runningBest_exact sc read g b0 n (numVertices g)"
  by (simp add: runningBest_exact_def phase1_best_row)

lemma runningBest_start: "runningBest_exact sc read g b0 0 0 = score b0"
  by (simp add: runningBest_exact_def phase1_upto_0 phase1_rows_0)

lemma best_inv_step:
  fixes B x s :: int
  assumes inv: "(\<forall>r v. P r v \<longrightarrow> f r v \<le> B) \<and> (B = s \<or> (\<exists>r v. P r v \<and> B = f r v))"
    and x: "x = f n c"
  shows "(\<forall>r v. P r v \<or> (r = n \<and> v = c) \<longrightarrow> f r v \<le> max B x) \<and>
         (max B x = s \<or> (\<exists>r v. (P r v \<or> (r = n \<and> v = c)) \<and> max B x = f r v))"
proof (intro conjI allI impI)
  fix r v assume "P r v \<or> (r = n \<and> v = c)"
  then show "f r v \<le> max B x" using inv x by (auto simp: le_max_iff_disj)
next
  show "max B x = s \<or> (\<exists>r v. (P r v \<or> (r = n \<and> v = c)) \<and> max B x = f r v)"
  proof (cases "x \<le> B")
    case True
    then have "max B x = B" by simp
    then show ?thesis using inv by auto
  next
    case False
    then have "max B x = f n c" using x by simp
    then show ?thesis by blast
  qed
qed

lemma phase1_best_invariant:
  assumes sorted: "topoSorted g" and c: "c \<le> numVertices g"
  shows "(\<forall>r v. computedBy g n c r v \<longrightarrow> dpCell_exact sc read g r v \<le> runningBest_exact sc read g b0 n c) \<and>
         (runningBest_exact sc read g b0 n c = score b0 \<or>
          (\<exists>r v. computedBy g n c r v \<and> runningBest_exact sc read g b0 n c = dpCell_exact sc read g r v))"
  using c
proof (induction n arbitrary: c)
  case 0
  then show ?case
  proof (induction c)
    case 0
    show ?case by (simp add: runningBest_start computedBy_def)
  next
    case (Suc c)
    then have lt: "c < numVertices g" by simp
    from Suc have IH: "(\<forall>r v. computedBy g 0 c r v \<longrightarrow> dpCell_exact sc read g r v \<le> runningBest_exact sc read g b0 0 c) \<and>
         (runningBest_exact sc read g b0 0 c = score b0 \<or>
          (\<exists>r v. computedBy g 0 c r v \<and> runningBest_exact sc read g b0 0 c = dpCell_exact sc read g r v))" by simp
    show ?case unfolding runningBest_step [OF sorted lt] computedBy_Suc [OF lt]
      by (rule best_inv_step [OF IH refl])
  qed
next
  case (Suc n)
  from Suc.prems show ?case
  proof (induction c)
    case 0
    show ?case using Suc.IH [OF le_refl] by (simp add: computedBy_row runningBest_row)
  next
    case (Suc c)
    then have lt: "c < numVertices g" by simp
    from Suc have IH: "(\<forall>r v. computedBy g (Suc n) c r v \<longrightarrow> dpCell_exact sc read g r v \<le> runningBest_exact sc read g b0 (Suc n) c) \<and>
         (runningBest_exact sc read g b0 (Suc n) c = score b0 \<or>
          (\<exists>r v. computedBy g (Suc n) c r v \<and> runningBest_exact sc read g b0 (Suc n) c = dpCell_exact sc read g r v))" by simp
    show ?case unfolding runningBest_step [OF sorted lt] computedBy_Suc [OF lt]
      by (rule best_inv_step [OF IH refl])
  qed
qed

lemma exact_score_bounds:
  assumes "csr_in_wf g" and sorted: "topoSorted g"
    and nonneg: "0 \<le> match sc" "0 \<le> mismatch sc" "0 \<le> ins sc" "0 \<le> del sc"
    and init: "score best0 = 0"
    and moment: "(n < length read \<and> c \<le> numVertices g) \<or> (n = length read \<and> c = 0)"
    and computed: "computedBy g n c r v"
  shows "0 \<le> dpCell_exact sc read g r v \<and>
         dpCell_exact sc read g r v \<le> runningBest_exact sc read g best0 n c \<and>
         runningBest_exact sc read g best0 n c \<le> int (min (numVertices g) (length read)) * match sc"
proof -
  have c: "c \<le> numVertices g" using moment by auto
  have inrange: "v' < numVertices g \<and> r' < length read" if "computedBy g n c r' v'" for r' v'
    using that moment by (auto simp: computedBy_def)
  note inv = phase1_best_invariant [OF sorted c, of n sc read best0]
  have v: "v < numVertices g" and r: "r < length read" using inrange [OF computed] by simp_all
  have a: "0 \<le> dpCell_exact sc read g r v" by (rule dpCell_nonneg [OF sorted v])
  have b: "dpCell_exact sc read g r v \<le> runningBest_exact sc read g best0 n c" using inv computed by blast
  have bound0: "0 \<le> int (min (numVertices g) (length read)) * match sc" using nonneg(1) by simp
  from inv have "runningBest_exact sc read g best0 n c = score best0 \<or>
      (\<exists>r' v'. computedBy g n c r' v' \<and> runningBest_exact sc read g best0 n c = dpCell_exact sc read g r' v')" by blast
  then have d: "runningBest_exact sc read g best0 n c \<le> int (min (numVertices g) (length read)) * match sc"
  proof
    assume "runningBest_exact sc read g best0 n c = score best0"
    then show ?thesis using init bound0 by simp
  next
    assume "\<exists>r' v'. computedBy g n c r' v' \<and> runningBest_exact sc read g best0 n c = dpCell_exact sc read g r' v'"
    then obtain r' v' where cb: "computedBy g n c r' v'" and eq: "runningBest_exact sc read g best0 n c = dpCell_exact sc read g r' v'"
      by blast
    from inrange [OF cb] have "v' < numVertices g" "r' < length read" by simp_all
    from dpCell_bound [OF sorted nonneg this] eq show ?thesis by simp
  qed
  from a b d show ?thesis by simp
qed

section \<open>The 32-bit Phase 1 kernel does not overflow\<close>

lemma wrap32_id: "- 2147483648 \<le> x \<Longrightarrow> x \<le> 2147483647 \<Longrightarrow> wrap32 x = x"
  by (simp add: wrap32_def)

lemma exact_state_rows:
  assumes sorted: "topoSorted g" and c: "c \<le> numVertices g"
  obtains m0 b0 where "matrixShape (numVertices g) m0"
    and "rowBefore_exact sc read g n = m0"
    and "fst (phase1_upto_exact sc read g n c (zeroMatrix (numVertices g), b)) =
         fst (fold (phase1_cell_exact sc read g n) [0 ..< c] (m0, b0))"
proof -
  obtain m0 b0 where st0: "phase1_rows_exact sc read g n (zeroMatrix (numVertices g), initBest) = (m0, b0)"
    by (cases "phase1_rows_exact sc read g n (zeroMatrix (numVertices g), initBest)")
  have "matrixShape (numVertices g) (fst (phase1_rows_exact sc read g n (zeroMatrix (numVertices g), initBest)))"
    by (rule phase1_rows_shape) (simp_all add: matrixShape_zero sorted)
  then have shape: "matrixShape (numVertices g) m0" by (simp add: st0)
  have rb: "rowBefore_exact sc read g n = m0"
    by (simp add: rowBefore_exact_def totalRefLength_def st0)
  have "fst (phase1_upto_exact sc read g n c (zeroMatrix (numVertices g), b)) =
        fst (phase1_upto_exact sc read g n c (zeroMatrix (numVertices g), initBest))"
    by (rule phase1_upto_fst_indep)
  also have "\<dots> = fst (fold (phase1_cell_exact sc read g n) [0 ..< c] (m0, b0))"
    by (simp add: phase1_upto_exact_def st0)
  finally show ?thesis using that shape rb by blast
qed

lemma exact_state_above:
  assumes sorted: "topoSorted g" and c: "c \<le> numVertices g" and k: "k < numVertices g"
  shows "fst (phase1_upto_exact sc read g n c (zeroMatrix (numVertices g), b)) ! prevRow n ! k =
         (if n = 0 then 0 else dpCell_exact sc read g (n - 1) k)"
proof -
  obtain m0 b0 where shape: "matrixShape (numVertices g) m0"
    and rb: "rowBefore_exact sc read g n = m0"
    and eq: "fst (phase1_upto_exact sc read g n c (zeroMatrix (numVertices g), b)) =
         fst (fold (phase1_cell_exact sc read g n) [0 ..< c] (m0, b0))"
    by (rule exact_state_rows [OF sorted c])
  from phase1_row_prefix [OF shape sorted c, of sc read n b0]
  have "fst (fold (phase1_cell_exact sc read g n) [0 ..< c] (m0, b0)) ! prevRow n = m0 ! prevRow n"
    by simp
  then show ?thesis using rowBefore_above [OF k, of sc read n] by (simp add: eq rb)
qed

lemma exact_state_same:
  assumes sorted: "topoSorted g" and c: "c \<le> numVertices g" and k: "k < c"
  shows "fst (phase1_upto_exact sc read g n c (zeroMatrix (numVertices g), b)) ! (n mod 2) ! k =
         dpCell_exact sc read g n k"
proof -
  have split: "[0 ..< numVertices g] = [0 ..< c] @ [c ..< c + (numVertices g - c)]"
    using upt_add_eq_append [of 0 c "numVertices g - c"] c by simp
  have "dpCell_exact sc read g n k =
        fst (phase1_upto_exact sc read g n (numVertices g) (zeroMatrix (numVertices g), initBest)) ! (n mod 2) ! k"
    by (simp add: dpCell_exact_def phase1_upto_full totalRefLength_def)
  also have "\<dots> = fst (fold (phase1_cell_exact sc read g n) [c ..< c + (numVertices g - c)]
                         (phase1_upto_exact sc read g n c (zeroMatrix (numVertices g), initBest))) ! (n mod 2) ! k"
    unfolding phase1_upto_exact_def by (subst split) simp
  also have "\<dots> = fst (phase1_upto_exact sc read g n c (zeroMatrix (numVertices g), initBest)) ! (n mod 2) ! k"
    by (rule phase1_fold_earlier_column [OF k])
  also have "\<dots> = fst (phase1_upto_exact sc read g n c (zeroMatrix (numVertices g), b)) ! (n mod 2) ! k"
    using phase1_upto_fst_indep [of sc read g n c "zeroMatrix (numVertices g)" initBest b] by simp
  finally show ?thesis by simp
qed

lemma phase1_cell_agrees:
  assumes a1: "wrap32 (fst st ! prevRow i ! j - ins sc) = fst st ! prevRow i ! j - ins sc"
    and a2: "wrap32 (-1 * mismatch sc) = -1 * mismatch sc"
    and a3: "\<And>k. k \<in> set (inNeighbors g j) \<Longrightarrow>
               wrap32 (fst st ! prevRow i ! k + (if curChar g j = read ! i then match sc else -1 * mismatch sc)) =
               fst st ! prevRow i ! k + (if curChar g j = read ! i then match sc else -1 * mismatch sc)"
    and a4: "\<And>k. k \<in> set (inNeighbors g j) \<Longrightarrow>
               wrap32 (fst st ! (i mod 2) ! k - del sc) = fst st ! (i mod 2) ! k - del sc"
  shows "phase1_cell sc read g i j st = phase1_cell_exact sc read g i j st"
proof -
  define ms where "ms = (if curChar g j = read ! i then match sc else -1 * mismatch sc)"
  have ms': "(if curChar g j = read ! i then match sc else wrap32 (-1 * mismatch sc)) = ms"
    using a2 by (simp add: ms_def)
  have fm: "fold (\<lambda>k fromMatch. max fromMatch (wrap32 (fst st ! prevRow i ! k + ms))) (inNeighbors g j) ms =
            fold (\<lambda>k fromMatch. max fromMatch (fst st ! prevRow i ! k + ms)) (inNeighbors g j) ms"
    by (rule fold_max_cong) (simp add: a3 [unfolded ms_def [symmetric]])
  have fd: "fold (\<lambda>k fromDeletion. max fromDeletion (wrap32 (fst st ! (i mod 2) ! k - del sc))) (inNeighbors g j) (-1) =
            fold (\<lambda>k fromDeletion. max fromDeletion (fst st ! (i mod 2) ! k - del sc)) (inNeighbors g j) (-1)"
    by (rule fold_max_cong) (simp add: a4)
  show ?thesis
    unfolding phase1_cell_def phase1_cell_exact_def Let_def getNeighborOffsets_def ms' ms_def [symmetric] fm fd a1 ..
qed

lemma scoresFit_bound:
  assumes fit: "scoresFit sc g read" and x: "0 \<le> x" "x \<le> int (min (numVertices g) (length read)) * match sc"
  shows "wrap32 (x - ins sc) = x - ins sc"
    and "wrap32 (x - del sc) = x - del sc"
    and "wrap32 (x + match sc) = x + match sc"
    and "wrap32 (x + -1 * mismatch sc) = x + -1 * mismatch sc"
    and "wrap32 (-1 * mismatch sc) = -1 * mismatch sc"
proof -
  have top: "int (min (numVertices g) (length read)) * match sc + match sc \<le> 2147483647"
    using fit by (simp add: scoresFit_def INT_MAX_def algebra_simps)
  have c: "0 \<le> match sc" "0 \<le> mismatch sc" "0 \<le> ins sc" "0 \<le> del sc"
    "mismatch sc \<le> 2147483647" "ins sc \<le> 2147483647" "del sc \<le> 2147483647"
    using fit by (simp_all add: scoresFit_def INT_MAX_def)
  show "wrap32 (x - ins sc) = x - ins sc" using x top c by (intro wrap32_id) simp_all
  show "wrap32 (x - del sc) = x - del sc" using x top c by (intro wrap32_id) simp_all
  show "wrap32 (x + match sc) = x + match sc" using x top c by (intro wrap32_id) simp_all
  show "wrap32 (x + -1 * mismatch sc) = x + -1 * mismatch sc" using x top c by (intro wrap32_id) simp_all
  show "wrap32 (-1 * mismatch sc) = -1 * mismatch sc" using c by (intro wrap32_id) simp_all
qed

lemma phase1_step_agrees:
  assumes fit: "scoresFit sc g read" and sorted: "topoSorted g"
    and n: "n < length read" and c: "c < numVertices g"
  shows "phase1_cell sc read g n c (phase1_upto_exact sc read g n c (zeroMatrix (numVertices g), b)) =
         phase1_cell_exact sc read g n c (phase1_upto_exact sc read g n c (zeroMatrix (numVertices g), b))"
proof -
  define st where "st = phase1_upto_exact sc read g n c (zeroMatrix (numVertices g), b)"
  have nonneg: "0 \<le> match sc" "0 \<le> mismatch sc" "0 \<le> ins sc" "0 \<le> del sc"
    using fit by (simp_all add: scoresFit_def)
  have cle: "c \<le> numVertices g" using c by simp
  have rowAbove: "0 \<le> fst st ! prevRow n ! k \<and>
              fst st ! prevRow n ! k \<le> int (min (numVertices g) (length read)) * match sc"
    if "k < numVertices g" for k
  proof (cases n)
    case 0
    then show ?thesis using exact_state_above [OF sorted cle that, of sc read n b] nonneg(1)
      by (simp add: st_def)
  next
    case (Suc n')
    then have "n' < length read" using n by simp
    from dpCell_bound [OF sorted nonneg that this] dpCell_nonneg [OF sorted that, of sc read n']
    show ?thesis using exact_state_above [OF sorted cle that, of sc read n b] Suc
      by (simp add: st_def)
  qed
  have rowSame: "0 \<le> fst st ! (n mod 2) ! k \<and>
              fst st ! (n mod 2) ! k \<le> int (min (numVertices g) (length read)) * match sc"
    if "k < c" for k
  proof -
    have kV: "k < numVertices g" using that c by simp
    from dpCell_bound [OF sorted nonneg kV n] dpCell_nonneg [OF sorted kV, of sc read n]
    show ?thesis using exact_state_same [OF sorted cle that, of sc read n b] by (simp add: st_def)
  qed
  have pred: "k < c" if "k \<in> set (inNeighbors g c)" for k
    using topoSorted_pred [OF sorted c that] .
  show ?thesis unfolding st_def [symmetric]
  proof (rule phase1_cell_agrees)
    show "wrap32 (fst st ! prevRow n ! c - ins sc) = fst st ! prevRow n ! c - ins sc"
      using rowAbove [OF c] by (intro scoresFit_bound(1) [OF fit]) simp_all
    show "wrap32 (- 1 * mismatch sc) = - 1 * mismatch sc"
      by (rule scoresFit_bound(5) [OF fit, of 0]) (simp_all add: nonneg)
    show "wrap32 (fst st ! prevRow n ! k + (if curChar g c = read ! n then match sc else - 1 * mismatch sc)) =
          fst st ! prevRow n ! k + (if curChar g c = read ! n then match sc else - 1 * mismatch sc)"
      if "k \<in> set (inNeighbors g c)" for k
    proof -
      have kV: "k < numVertices g" using pred [OF that] c by simp
      show ?thesis
        using scoresFit_bound(3) [OF fit, of "fst st ! prevRow n ! k"]
          scoresFit_bound(4) [OF fit, of "fst st ! prevRow n ! k"] rowAbove [OF kV]
        by (cases "curChar g c = read ! n") simp_all
    qed
    show "wrap32 (fst st ! (n mod 2) ! k - del sc) = fst st ! (n mod 2) ! k - del sc"
      if "k \<in> set (inNeighbors g c)" for k
      using rowSame [OF pred [OF that]] by (intro scoresFit_bound(2) [OF fit]) simp_all
  qed
qed

lemma phase1_upto_Suc32:
  "phase1_upto sc read g n (Suc c) st = phase1_cell sc read g n c (phase1_upto sc read g n c st)"
  by (simp add: phase1_upto_def)

lemma phase1_upto_row32:
  "phase1_upto sc read g (Suc n) 0 st = phase1_upto sc read g n (numVertices g) st"
  by (simp add: phase1_upto_def phase1_rows_def totalRefLength_def)

lemma phase1_upto_start32: "phase1_upto sc read g 0 0 st = st"
  by (simp add: phase1_upto_def phase1_rows_def)

lemma phase1_upto_agrees_row:
  assumes fit: "scoresFit sc g read" and sorted: "topoSorted g"
  shows "n < length read \<Longrightarrow> c \<le> numVertices g \<Longrightarrow>
         phase1_upto sc read g n c (zeroMatrix (numVertices g), b) =
         phase1_upto_exact sc read g n c (zeroMatrix (numVertices g), b)"
proof (induction n arbitrary: c)
  case 0
  from "0.prems" show ?case
  proof (induction c)
    case 0
    show ?case by (simp add: phase1_upto_start32 phase1_upto_0 phase1_rows_0)
  next
    case (Suc c)
    then have IH: "phase1_upto sc read g 0 c (zeroMatrix (numVertices g), b) =
                   phase1_upto_exact sc read g 0 c (zeroMatrix (numVertices g), b)"
      and lt: "c < numVertices g" by simp_all
    show ?case
      unfolding phase1_upto_Suc32 phase1_upto_Suc IH
      by (rule phase1_step_agrees [OF fit sorted Suc.prems(1) lt])
  qed
next
  case (Suc n)
  have nlt: "n < length read" using Suc.prems(1) by simp
  from Suc.prems show ?case
  proof (induction c)
    case 0
    show ?case unfolding phase1_upto_row32 phase1_best_row
      by (rule Suc.IH [OF nlt le_refl])
  next
    case (Suc c)
    then have IH: "phase1_upto sc read g (Suc n) c (zeroMatrix (numVertices g), b) =
                   phase1_upto_exact sc read g (Suc n) c (zeroMatrix (numVertices g), b)"
      and lt: "c < numVertices g" by simp_all
    show ?case
      unfolding phase1_upto_Suc32 phase1_upto_Suc IH
      by (rule phase1_step_agrees [OF fit sorted Suc.prems(1) lt])
  qed
qed

lemma phase1_upto_agrees:
  assumes fit: "scoresFit sc g read" and sorted: "topoSorted g"
    and moment: "(n < length read \<and> c \<le> numVertices g) \<or> (n = length read \<and> c = 0)"
  shows "phase1_upto sc read g n c (zeroMatrix (numVertices g), b) =
         phase1_upto_exact sc read g n c (zeroMatrix (numVertices g), b)"
proof (cases "n < length read")
  case True
  with moment show ?thesis using phase1_upto_agrees_row [OF fit sorted] by auto
next
  case False
  with moment have n: "n = length read" and c: "c = 0" by auto
  show ?thesis
  proof (cases n)
    case 0
    then show ?thesis by (simp add: c phase1_upto_start32 phase1_upto_0 phase1_rows_0)
  next
    case (Suc n')
    then have "n' < length read" using n by simp
    from phase1_upto_agrees_row [OF fit sorted this le_refl]
    show ?thesis unfolding c Suc phase1_upto_row32 phase1_best_row .
  qed
qed

lemma dpCell_agrees:
  assumes fit: "scoresFit sc g read" and sorted: "topoSorted g" and r: "r < length read"
  shows "dpCell sc read g r v = dpCell_exact sc read g r v"
proof -
  have "phase1_rows sc read g (Suc r) (zeroMatrix (numVertices g), initBest) =
        phase1_upto sc read g r (numVertices g) (zeroMatrix (numVertices g), initBest)"
    by (simp add: phase1_upto_def phase1_rows_def totalRefLength_def)
  also have "\<dots> = phase1_upto_exact sc read g r (numVertices g) (zeroMatrix (numVertices g), initBest)"
    by (rule phase1_upto_agrees_row [OF fit sorted r le_refl])
  also have "\<dots> = phase1_rows_exact sc read g (Suc r) (zeroMatrix (numVertices g), initBest)"
    by (rule phase1_upto_full)
  finally show ?thesis by (simp add: dpCell_def dpCell_exact_def totalRefLength_def)
qed

lemma runningBest_agrees:
  assumes fit: "scoresFit sc g read" and sorted: "topoSorted g"
    and moment: "(n < length read \<and> c \<le> numVertices g) \<or> (n = length read \<and> c = 0)"
  shows "runningBest sc read g b n c = runningBest_exact sc read g b n c"
  unfolding runningBest_def runningBest_exact_def totalRefLength_def
  by (simp add: phase1_upto_agrees [OF fit sorted moment])

text \<open>
  Beyond the bounds the kernel wraps around as the compiled code does: with
  \<open>match = 1500000000\<close> the sum \<open>1500000000 + 1500000000\<close> of cell \<open>(1, 1)\<close> becomes
  negative and the cell keeps the value \<open>1500000000\<close>.
\<close>

lemma phase1_overflow_example:
  "dpCell \<lparr>match = 1500000000, mismatch = 1, ins = 1, del = 1\<rparr> ''AA'' (chainGraph ''AA'') 1 1 = 1500000000"
  by code_simp

text \<open>
  C1. For every well-formed, topologically sorted graph and every read, with
  non-negative score constants small enough that \<open>(min(|V|, |read|) + 1) * match\<close> fits
  a 32-bit \<open>int\<close> (no overflow), the scalar kernel \<open>alignToDAGLocal_Phase1_Score\<close>
  computes the cell of row \<open>r\<close> and vertex \<open>v\<close> as
  \<open>max(0, sub, max over in-neighbours p of cell(r-1,p) + sub, max over in-neighbours p of
  cell(r,p) - del, cell(r-1,v) - ins)\<close>, where \<open>sub\<close> is \<open>match\<close> when \<open>read[r]\<close> equals
  the label of \<open>v\<close> and \<open>-mismatch\<close> otherwise, and the cells of row \<open>r - 1\<close> count as 0
  when \<open>r = 0\<close>.
\<close>

theorem phase1_cell_recurrence:
  assumes "csr_in_wf g" and "topoSorted g" and "scoresFit sc g read"
    and "r < length read" and "v < numVertices g"
  shows "dpCell sc read g r v =
         specRecurrence sc read g r v
           (\<lambda>p. if r = 0 then 0 else dpCell sc read g (r - 1) p) (dpCell sc read g r)"
proof -
  have same: "dpCell sc read g r = dpCell_exact sc read g r"
    by (rule ext) (rule dpCell_agrees [OF assms(3,2,4)])
  have up: "(\<lambda>p. if r = 0 then 0 else dpCell sc read g (r - 1) p) =
            (\<lambda>p. if r = 0 then 0 else dpCell_exact sc read g (r - 1) p)"
  proof (rule ext)
    fix p
    show "(if r = 0 then 0 else dpCell sc read g (r - 1) p) =
          (if r = 0 then 0 else dpCell_exact sc read g (r - 1) p)"
    proof (cases "r = 0")
      case True
      then show ?thesis by simp
    next
      case False
      then have "r - 1 < length read" using assms(4) by simp
      from dpCell_agrees [OF assms(3,2) this] False show ?thesis by simp
    qed
  qed
  show ?thesis unfolding up same by (rule dpCell_recurrence [OF assms(2,5)])
qed

theorem phase1_cell_recurrence_witness:
  "csr_in_wf (chainGraph ''ACGTA'') \<and> topoSorted (chainGraph ''ACGTA'') \<and>
   scoresFit unitScore (chainGraph ''ACGTA'') ''ACTA'' \<and>
   1 < length ''ACTA'' \<and> 1 < numVertices (chainGraph ''ACGTA'') \<and>
   dpCell unitScore ''ACTA'' (chainGraph ''ACGTA'') 1 1 = 2 \<and>
   specRecurrence unitScore ''ACTA'' (chainGraph ''ACGTA'') 1 1
     (\<lambda>p. if (1::nat) = 0 then 0 else dpCell unitScore ''ACTA'' (chainGraph ''ACGTA'') (1 - 1) p)
     (dpCell unitScore ''ACTA'' (chainGraph ''ACGTA'') 1) = 2"
proof -
  have wf: "csr_in_wf (chainGraph ''ACGTA'')" by code_simp
  have ts: "topoSorted (chainGraph ''ACGTA'')" by code_simp
  have fit: "scoresFit unitScore (chainGraph ''ACGTA'') ''ACTA''" by code_simp
  have r: "1 < length ''ACTA''" by simp
  have v: "1 < numVertices (chainGraph ''ACGTA'')" by code_simp
  have val: "dpCell unitScore ''ACTA'' (chainGraph ''ACGTA'') 1 1 = 2" by code_simp
  from phase1_cell_recurrence [OF wf ts fit r v] val wf ts fit r v show ?thesis by simp
qed

text \<open>
  C9. At every moment of the Phase 1 double loop (after \<open>n\<close> complete rows and \<open>c\<close>
  columns of row \<open>n\<close>, up to the end of the run), every cell \<open>(r, v)\<close> computed so far is
  non-negative and at most the running best score, and the running best score is at
  most \<open>min(|V|, |read|) * match\<close>. The graph is well formed and topologically sorted,
  the four score constants are non-negative, \<open>(min(|V|, |read|) + 1) * match\<close> fits a
  32-bit \<open>int\<close> (no overflow) and the best score starts at 0.
\<close>

theorem phase1_score_bounds:
  assumes "csr_in_wf g" and sorted: "topoSorted g" and fit: "scoresFit sc g read"
    and init: "score best0 = 0"
    and moment: "(n < length read \<and> c \<le> numVertices g) \<or> (n = length read \<and> c = 0)"
    and computed: "computedBy g n c r v"
  shows "0 \<le> dpCell sc read g r v \<and>
         dpCell sc read g r v \<le> runningBest sc read g best0 n c \<and>
         runningBest sc read g best0 n c \<le> int (min (numVertices g) (length read)) * match sc"
proof -
  have nonneg: "0 \<le> match sc" "0 \<le> mismatch sc" "0 \<le> ins sc" "0 \<le> del sc"
    using fit by (simp_all add: scoresFit_def)
  have r: "r < length read" using computed moment by (auto simp: computedBy_def)
  show ?thesis
    unfolding dpCell_agrees [OF fit sorted r] runningBest_agrees [OF fit sorted moment]
    by (rule exact_score_bounds [OF assms(1) sorted nonneg init moment computed])
qed

theorem phase1_score_bounds_witness:
  "csr_in_wf (chainGraph ''ACGTA'') \<and> topoSorted (chainGraph ''ACGTA'') \<and>
   scoresFit unitScore (chainGraph ''ACGTA'') ''ACTA'' \<and>
   score initBest = 0 \<and>
   ((2 < length ''ACTA'' \<and> 3 \<le> numVertices (chainGraph ''ACGTA'')) \<or> (2 = length ''ACTA'' \<and> (3::nat) = 0)) \<and>
   computedBy (chainGraph ''ACGTA'') 2 3 1 1 \<and>
   0 \<le> dpCell unitScore ''ACTA'' (chainGraph ''ACGTA'') 1 1 \<and>
   dpCell unitScore ''ACTA'' (chainGraph ''ACGTA'') 1 1 \<le> runningBest unitScore ''ACTA'' (chainGraph ''ACGTA'') initBest 2 3 \<and>
   runningBest unitScore ''ACTA'' (chainGraph ''ACGTA'') initBest 2 3 \<le> int (min (numVertices (chainGraph ''ACGTA'')) (length ''ACTA'')) * match unitScore \<and>
   dpCell unitScore ''ACTA'' (chainGraph ''ACGTA'') 1 1 = 2 \<and>
   runningBest unitScore ''ACTA'' (chainGraph ''ACGTA'') initBest 2 3 = 2"
proof -
  have wf: "csr_in_wf (chainGraph ''ACGTA'')" by code_simp
  have ts: "topoSorted (chainGraph ''ACGTA'')" by code_simp
  have fit: "scoresFit unitScore (chainGraph ''ACGTA'') ''ACTA''" by code_simp
  have i0: "score initBest = 0" by (simp add: initBest_def)
  have mo: "(2 < length ''ACTA'' \<and> 3 \<le> numVertices (chainGraph ''ACGTA'')) \<or> (2 = length ''ACTA'' \<and> (3::nat) = 0)"
    by code_simp
  have cb: "computedBy (chainGraph ''ACGTA'') 2 3 1 1" by code_simp
  have v1: "dpCell unitScore ''ACTA'' (chainGraph ''ACGTA'') 1 1 = 2" by code_simp
  have v2: "runningBest unitScore ''ACTA'' (chainGraph ''ACGTA'') initBest 2 3 = 2" by code_simp
  from phase1_score_bounds [OF wf ts fit i0 mo cb] wf ts fit i0 mo cb v1 v2
  show ?thesis by blast
qed

section \<open>Properties of the traceback\<close>

lemma fold_argmax_pos:
  "snd (fold (\<lambda>k fm. if C k fm then (f k, h k) else fm) ps init) \<in> insert (snd init) (h ` set ps)"
proof (induction ps arbitrary: init)
  case Nil
  show ?case by simp
next
  case (Cons k ps)
  show ?case using Cons.IH [of "if C k init then (f k, h k) else init"] by auto
qed

lemma tbStep_Next:
  assumes sorted: "topoSorted g" and inrange: "tb_offset s < numVertices g"
    and step: "tbStep sc read g sl s = Next s'"
  shows "(tb_offset s' < tb_offset s \<and> tb_row s' \<le> tb_row s) \<or>
         (tb_offset s' = tb_offset s \<and> tb_row s' = tb_row s - 1)"
proof -
  define j0 where "j0 = slab_j0 sl"
  define cur where "cur = currentRowScores s"
  define ab where "ab = map (\<lambda>i. wrap32 (cur ! i - completeMatrixLog sl ! nat (tb_row s) ! i)) [0 ..< reducedWidth sl]"
  define ms where "ms = (if curChar g (tb_offset s) = read ! nat (tb_row s) then match sc else wrap32 (-1 * mismatch sc))"
  define fmb where "fmb = fold (\<lambda>k fm. if k \<ge> j0 \<and> fst fm < wrap32 (ab ! (k - j0) + ms)
                                then (wrap32 (ab ! (k - j0) + ms), k) else fm)
                       (getNeighborOffsets g (tb_offset s)) (ms, tb_offset s)"
  define fdb where "fdb = fold (\<lambda>k fd. if k \<ge> j0 \<and> fst fd < wrap32 (cur ! (k - j0) - del sc)
                                then (wrap32 (cur ! (k - j0) - del sc), Some k) else fd)
                       (getNeighborOffsets g (tb_offset s)) (-1, None)"
  have preds: "p < tb_offset s" if "p \<in> set (getNeighborOffsets g (tb_offset s))" for p
    using topoSorted_pred [OF sorted inrange] that by (simp add: getNeighborOffsets_def)
  have "snd fmb \<in> insert (tb_offset s) ((\<lambda>k. k) ` set (getNeighborOffsets g (tb_offset s)))"
    unfolding fmb_def
    using fold_argmax_pos [of "\<lambda>k fm. k \<ge> j0 \<and> fst fm < wrap32 (ab ! (k - j0) + ms)" "\<lambda>k. wrap32 (ab ! (k - j0) + ms)" "\<lambda>k. k"
        "getNeighborOffsets g (tb_offset s)" "(ms, tb_offset s)"] by simp
  then have mpos: "snd fmb = tb_offset s \<or> snd fmb < tb_offset s" using preds by auto
  have "snd fdb \<in> insert None (Some ` set (getNeighborOffsets g (tb_offset s)))"
    unfolding fdb_def
    using fold_argmax_pos [of "\<lambda>k fd. k \<ge> j0 \<and> fst fd < wrap32 (cur ! (k - j0) - del sc)" "\<lambda>k. wrap32 (cur ! (k - j0) - del sc)" Some
        "getNeighborOffsets g (tb_offset s)" "(-1, None)"] by simp
  then have dpos: "pos < tb_offset s" if "snd fdb = Some pos" for pos using preds that by auto
  from step show ?thesis
    unfolding tbStep_def Let_def j0_def [symmetric] cur_def [symmetric] ab_def [symmetric]
      ms_def [symmetric] fmb_def [symmetric] fdb_def [symmetric]
    using mpos dpos
    by (auto split: if_splits option.splits)
qed

lemma tbLoop_terminates_aux:
  assumes sorted: "topoSorted g"
  shows "tb_offset s < numVertices g \<Longrightarrow> \<exists>res. tbLoop sc read g sl s = Some res"
proof (induction "tb_offset s + nat (tb_row s + 1)" arbitrary: s rule: less_induct)
  case less
  show ?case
  proof (cases "int (tb_offset s) - int (slab_j0 sl) \<ge> 0 \<and> tb_row s \<ge> 0")
    case False
    then show ?thesis by (subst tbLoop.simps) auto
  next
    case guard: True
    show ?thesis
    proof (cases "tbStep sc read g sl s")
      case (Done c)
      with guard show ?thesis by (subst tbLoop.simps) simp
    next
      case (Failed e)
      with guard show ?thesis by (subst tbLoop.simps) simp
    next
      case (Next s')
      from tbStep_Next [OF sorted less.prems Next]
      have smaller: "tb_offset s' + nat (tb_row s' + 1) < tb_offset s + nat (tb_row s + 1)"
        and inrange: "tb_offset s' < numVertices g"
        using guard less.prems by auto
      from less.hyps [OF smaller inrange] obtain res where "tbLoop sc read g sl s' = Some res" by blast
      with guard Next show ?thesis by (subst tbLoop.simps) simp
    qed
  qed
qed

lemma tbStep_nonpositive:
  "currentRowScores s ! (tb_offset s - slab_j0 sl) \<le> 0 \<Longrightarrow> tbStep sc read g sl s = Done (cigar s)"
  by (simp add: tbStep_def Let_def)

lemma tbStep_match_start:
  assumes "0 < currentRowScores s ! (tb_offset s - slab_j0 sl)"
    and "currentRowScores s ! (tb_offset s - slab_j0 sl) = fst (tbFromMatch sc read g sl s)"
    and "snd (tbFromMatch sc read g sl s) = tb_offset s"
  shows "tbStep sc read g sl s =
         Done (cigar s @ [if tbMatchScore sc read g s = match sc then CHR ''='' else CHR ''X''])"
  using assms
  unfolding tbStep_def tbFromMatch_def tbAboveRowScores_def tbMatchScore_def Let_def
  by simp

lemma tbLoop_guard_false:
  "tb_offset s < slab_j0 sl \<or> tb_row s < 0 \<Longrightarrow> tbLoop sc read g sl s = Some (Inr (cigar s))"
  by (subst tbLoop.simps) auto

lemma tbLoop_Done:
  "slab_j0 sl \<le> tb_offset s \<Longrightarrow> 0 \<le> tb_row s \<Longrightarrow> tbStep sc read g sl s = Done c \<Longrightarrow>
   tbLoop sc read g sl s = Some (Inr c)"
  by (subst tbLoop.simps) simp

text \<open>
  C10. On a well-formed, topologically sorted graph the traceback loop of Phase 4
  terminates from every state whose iterator stands on a vertex, for every read, slab
  and row: it returns an edit string or stops at a failed assertion. Every iteration
  that continues either jumps to a strictly smaller column without increasing the row
  (match or deletion step) or keeps the column and moves to the row above (insertion
  step). The loop returns the edit string collected so far as soon as the column lies
  before the slab or the row is negative, and when the current cell is not positive;
  and when a match step starts the alignment at its own column it returns the edit
  string extended by that step.
\<close>

theorem traceback_terminates:
  assumes "csr_in_wf g" and "topoSorted g" and "tb_offset s < numVertices g"
  shows "(\<exists>res. tbLoop sc read g sl s = Some res) \<and>
         (\<forall>s'. tbStep sc read g sl s = Next s' \<longrightarrow>
            (tb_offset s' < tb_offset s \<and> tb_row s' \<le> tb_row s) \<or>
            (tb_offset s' = tb_offset s \<and> tb_row s' = tb_row s - 1)) \<and>
         (tb_offset s < slab_j0 sl \<or> tb_row s < 0 \<longrightarrow>
            tbLoop sc read g sl s = Some (Inr (cigar s))) \<and>
         (slab_j0 sl \<le> tb_offset s \<and> 0 \<le> tb_row s \<and>
          currentRowScores s ! (tb_offset s - slab_j0 sl) \<le> 0 \<longrightarrow>
            tbLoop sc read g sl s = Some (Inr (cigar s))) \<and>
         (slab_j0 sl \<le> tb_offset s \<and> 0 \<le> tb_row s \<and>
          0 < currentRowScores s ! (tb_offset s - slab_j0 sl) \<and>
          currentRowScores s ! (tb_offset s - slab_j0 sl) = fst (tbFromMatch sc read g sl s) \<and>
          snd (tbFromMatch sc read g sl s) = tb_offset s \<longrightarrow>
            tbLoop sc read g sl s =
              Some (Inr (cigar s @ [if tbMatchScore sc read g s = match sc then CHR ''='' else CHR ''X''])))"
proof (intro conjI allI impI)
  show "\<exists>res. tbLoop sc read g sl s = Some res"
    by (rule tbLoop_terminates_aux [OF assms(2,3)])
next
  fix s' assume "tbStep sc read g sl s = Next s'"
  then show "(tb_offset s' < tb_offset s \<and> tb_row s' \<le> tb_row s) \<or>
             (tb_offset s' = tb_offset s \<and> tb_row s' = tb_row s - 1)"
    by (rule tbStep_Next [OF assms(2,3)])
next
  assume "tb_offset s < slab_j0 sl \<or> tb_row s < 0"
  then show "tbLoop sc read g sl s = Some (Inr (cigar s))" by (rule tbLoop_guard_false)
next
  assume a: "slab_j0 sl \<le> tb_offset s \<and> 0 \<le> tb_row s \<and>
             currentRowScores s ! (tb_offset s - slab_j0 sl) \<le> 0"
  then have "tbStep sc read g sl s = Done (cigar s)" by (simp add: tbStep_nonpositive)
  with a show "tbLoop sc read g sl s = Some (Inr (cigar s))" by (simp add: tbLoop_Done)
next
  assume a: "slab_j0 sl \<le> tb_offset s \<and> 0 \<le> tb_row s \<and>
          0 < currentRowScores s ! (tb_offset s - slab_j0 sl) \<and>
          currentRowScores s ! (tb_offset s - slab_j0 sl) = fst (tbFromMatch sc read g sl s) \<and>
          snd (tbFromMatch sc read g sl s) = tb_offset s"
  then have "tbStep sc read g sl s =
         Done (cigar s @ [if tbMatchScore sc read g s = match sc then CHR ''='' else CHR ''X''])"
    by (intro tbStep_match_start) simp_all
  with a show "tbLoop sc read g sl s =
              Some (Inr (cigar s @ [if tbMatchScore sc read g s = match sc then CHR ''='' else CHR ''X'']))"
    by (simp add: tbLoop_Done)
qed

theorem traceback_terminates_witness:
  "csr_in_wf (chainGraph ''ACGTA'') \<and> topoSorted (chainGraph ''ACGTA'') \<and>
   tb_offset (tbInit exampleSlab exampleBest) < numVertices (chainGraph ''ACGTA'') \<and>
   tbLoop unitScore ''ACTA'' (chainGraph ''ACGTA'') exampleSlab (tbInit exampleSlab exampleBest) = Some (Inr ''==D=='') \<and>
   tbStep unitScore ''ACTA'' (chainGraph ''ACGTA'') exampleSlab (tbInit exampleSlab exampleBest) =
     Next \<lparr>tb_offset = 3, tb_row = 2, currentRowScores = [0, 1, 1, 2, 1], cigar = ''=''\<rparr> \<and>
   tb_offset \<lparr>tb_offset = 3, tb_row = 2, currentRowScores = [0, 1, 1, 2, 1], cigar = ''=''\<rparr>
     < tb_offset (tbInit exampleSlab exampleBest) \<and>
   tb_row exampleStatePast < 0 \<and>
   tbLoop unitScore ''ACTA'' (chainGraph ''ACGTA'') exampleSlab exampleStatePast = Some (Inr ''==D=='') \<and>
   slab_j0 exampleSlab \<le> tb_offset exampleStateZero \<and> 0 \<le> tb_row exampleStateZero \<and>
   currentRowScores exampleStateZero ! (tb_offset exampleStateZero - slab_j0 exampleSlab) \<le> 0 \<and>
   tbLoop unitScore ''ACTA'' (chainGraph ''ACGTA'') exampleSlab exampleStateZero = Some (Inr ''==D='') \<and>
   slab_j0 exampleSlab \<le> tb_offset exampleStateStart \<and> 0 \<le> tb_row exampleStateStart \<and>
   0 < currentRowScores exampleStateStart ! (tb_offset exampleStateStart - slab_j0 exampleSlab) \<and>
   currentRowScores exampleStateStart ! (tb_offset exampleStateStart - slab_j0 exampleSlab) =
     fst (tbFromMatch unitScore ''ACTA'' (chainGraph ''ACGTA'') exampleSlab exampleStateStart) \<and>
   snd (tbFromMatch unitScore ''ACTA'' (chainGraph ''ACGTA'') exampleSlab exampleStateStart) = tb_offset exampleStateStart \<and>
   tbLoop unitScore ''ACTA'' (chainGraph ''ACGTA'') exampleSlab exampleStateStart = Some (Inr ''==D=='')"
proof -
  let ?g = "chainGraph ''ACGTA''"
  let ?s1 = "tbInit exampleSlab exampleBest"
  have wf: "csr_in_wf ?g" by code_simp
  have ts: "topoSorted ?g" by code_simp
  have lt1: "tb_offset ?s1 < numVertices ?g" by code_simp
  have lt2: "tb_offset exampleStateZero < numVertices ?g" by code_simp
  have lt3: "tb_offset exampleStateStart < numVertices ?g" by code_simp
  have lt4: "tb_offset exampleStatePast < numVertices ?g" by code_simp
  have run: "tbLoop unitScore ''ACTA'' ?g exampleSlab ?s1 = Some (Inr ''==D=='')"
    by code_simp
  have st: "tbStep unitScore ''ACTA'' ?g exampleSlab ?s1 =
     Next \<lparr>tb_offset = 3, tb_row = 2, currentRowScores = [0, 1, 1, 2, 1], cigar = ''=''\<rparr>"
    by code_simp
  have off: "tb_offset ?s1 = 4" by code_simp
  from traceback_terminates [OF wf ts lt1, of unitScore "''ACTA''" exampleSlab] st off
  have smaller: "tb_offset \<lparr>tb_offset = 3, tb_row = 2, currentRowScores = [0, 1, 1, 2, 1], cigar = ''=''\<rparr>
     < tb_offset ?s1"
    by auto
  have p1: "tb_row exampleStatePast < 0" by code_simp
  have pc: "cigar exampleStatePast = ''==D==''" by code_simp
  from traceback_terminates [OF wf ts lt4, of unitScore "''ACTA''" exampleSlab] p1 pc
  have past: "tbLoop unitScore ''ACTA'' ?g exampleSlab exampleStatePast = Some (Inr ''==D=='')"
    by simp
  have z1: "slab_j0 exampleSlab \<le> tb_offset exampleStateZero" by code_simp
  have z2: "0 \<le> tb_row exampleStateZero" by code_simp
  have z3: "currentRowScores exampleStateZero ! (tb_offset exampleStateZero - slab_j0 exampleSlab) \<le> 0"
    by code_simp
  have zc: "cigar exampleStateZero = ''==D=''" by code_simp
  from traceback_terminates [OF wf ts lt2, of unitScore "''ACTA''" exampleSlab] z1 z2 z3 zc
  have zero: "tbLoop unitScore ''ACTA'' ?g exampleSlab exampleStateZero = Some (Inr ''==D='')"
    by simp
  have m1: "slab_j0 exampleSlab \<le> tb_offset exampleStateStart" by code_simp
  have m2: "0 \<le> tb_row exampleStateStart" by code_simp
  have m3: "0 < currentRowScores exampleStateStart ! (tb_offset exampleStateStart - slab_j0 exampleSlab)"
    by code_simp
  have m4: "currentRowScores exampleStateStart ! (tb_offset exampleStateStart - slab_j0 exampleSlab) =
     fst (tbFromMatch unitScore ''ACTA'' ?g exampleSlab exampleStateStart)" by code_simp
  have m5: "snd (tbFromMatch unitScore ''ACTA'' ?g exampleSlab exampleStateStart) = tb_offset exampleStateStart"
    by code_simp
  have mc: "cigar exampleStateStart @
      [if tbMatchScore unitScore ''ACTA'' ?g exampleStateStart = match unitScore then CHR ''='' else CHR ''X''] =
      ''==D==''" by code_simp
  from traceback_terminates [OF wf ts lt3, of unitScore "''ACTA''" exampleSlab] m1 m2 m3 m4 m5 mc
  have start: "tbLoop unitScore ''ACTA'' ?g exampleSlab exampleStateStart = Some (Inr ''==D=='')"
    by simp
  from wf ts lt1 run st smaller p1 past z1 z2 z3 zero m1 m2 m3 m4 m5 start show ?thesis
    by (intro conjI)
qed

section \<open>Properties of the plain-text loader\<close>

lemma neighborEdges_member:
  "neighborEdges v toks = Inr es \<Longrightarrow> tok \<in> set toks \<Longrightarrow> stoi tok = Inr t \<Longrightarrow>
   (v, nat (t mod 2 ^ 32)) \<in> set es"
  by (induction toks arbitrary: es) (auto split: sum.splits)

lemma parseLine_row:
  "parseLine st line = Inr st' \<Longrightarrow> currentRow st' = currentRow st + 1"
  by (auto simp: parseLine_def Let_def split: if_splits sum.splits)

lemma parseLine_edges_mono:
  "parseLine st line = Inr st' \<Longrightarrow> set (edgeVector st) \<subseteq> set (edgeVector st')"
  by (auto simp: parseLine_def Let_def split: if_splits sum.splits)

lemma parseLine_edges:
  "parseLine st line = Inr st' \<Longrightarrow> 0 < currentRow st \<Longrightarrow>
   tok \<in> set (butlast (splitTokens [] line)) \<Longrightarrow> stoi tok = Inr t \<Longrightarrow>
   (currentRow st - 1, nat (t mod 2 ^ 32)) \<in> set (edgeVector st')"
  by (auto simp: parseLine_def Let_def split: if_splits sum.splits dest: neighborEdges_member)

lemma parseLines_edges_mono:
  "parseLines st lines = Inr st' \<Longrightarrow> set (edgeVector st) \<subseteq> set (edgeVector st')"
proof (induction lines arbitrary: st)
  case Nil
  then show ?case by simp
next
  case (Cons line lines)
  from Cons.prems obtain st1 where p: "parseLine st line = Inr st1" and r: "parseLines st1 lines = Inr st'"
    by (auto split: sum.splits)
  from parseLine_edges_mono [OF p] Cons.IH [OF r] show ?case by blast
qed

lemma parseLines_edges:
  "parseLines st lines = Inr st' \<Longrightarrow> k < length lines \<Longrightarrow> 0 < currentRow st + k \<Longrightarrow>
   tok \<in> set (butlast (splitTokens [] (lines ! k))) \<Longrightarrow> stoi tok = Inr t \<Longrightarrow>
   (currentRow st + k - 1, nat (t mod 2 ^ 32)) \<in> set (edgeVector st')"
proof (induction lines arbitrary: st k)
  case Nil
  then show ?case by simp
next
  case (Cons line lines)
  from Cons.prems(1) obtain st1 where p: "parseLine st line = Inr st1" and r: "parseLines st1 lines = Inr st'"
    by (auto split: sum.splits)
  show ?case
  proof (cases k)
    case 0
    with Cons.prems have "(currentRow st - 1, nat (t mod 2 ^ 32)) \<in> set (edgeVector st1)"
      using parseLine_edges [OF p] by simp
    with parseLines_edges_mono [OF r] 0 show ?thesis by auto
  next
    case (Suc k')
    have row: "currentRow st1 = currentRow st + 1" by (rule parseLine_row [OF p])
    from Cons.IH [OF r, of k'] Cons.prems Suc row show ?thesis by simp
  qed
qed

text \<open>A signed header is read like an unsigned one.\<close>

lemma loadFromTxt_signed_header:
  "extractCount ''+2'' = 2 \<and>
   loadFromTxt (Some txtExampleSigned) =
     Inr \<lparr>currentRow = 3, totalVertices = 2, vertexSeqs = [(0, ''A''), (1, ''C'')], edgeVector = [(0, 1)]\<rparr>"
  by code_simp

text \<open>
  C8 (amended). In the plain-text ingest path the out-neighbour ids on a vertex line are
  taken as they are written, 0-based: when \<open>loadFromTxt\<close> succeeds, every neighbour
  token with the non-negative value \<open>t\<close> on the line of vertex \<open>i\<close> (1-based line
  number after the header) puts the edge \<open>(i - 1, t)\<close> into the edge vector. Only the
  line number is rebased.
\<close>

theorem loadFromTxt_records_token_unchanged:
  assumes "loadFromTxt (Some content) = Inr st"
    and "0 < i" and "i < length (getlines [] content)"
    and "tok \<in> set (butlast (splitTokens [] (getlines [] content ! i)))"
    and "stoi tok = Inr t" and "0 \<le> t"
  shows "(i - 1, nat t) \<in> set (edgeVector st)"
proof -
  from assms(1) have p: "parseLines \<lparr>currentRow = 0, totalVertices = 0, vertexSeqs = [], edgeVector = []\<rparr>
                           (getlines [] content) = Inr st"
    by (auto simp: loadFromTxt_def split: sum.splits if_splits)
  have "t < 2 ^ 31" using assms(5) by (auto simp: stoi_def Let_def split: if_splits)
  then have "t mod 2 ^ 32 = t" using assms(6) by simp
  with parseLines_edges [OF p assms(3) _ assms(4,5)] assms(2) show ?thesis by simp
qed

theorem loadFromTxt_records_token_unchanged_witness:
  "loadFromTxt (Some txtExample) = Inr \<lparr>currentRow = 3, totalVertices = 2, vertexSeqs = [(0, ''A''), (1, ''C'')], edgeVector = [(0, 1)]\<rparr> \<and>
   (0::nat) < 1 \<and> 1 < length (getlines [] txtExample) \<and>
   ''1'' \<in> set (butlast (splitTokens [] (getlines [] txtExample ! 1))) \<and>
   stoi ''1'' = Inr 1 \<and> (0::int) \<le> 1 \<and>
   (1 - 1, nat 1) \<in> set (edgeVector \<lparr>currentRow = 3, totalVertices = 2, vertexSeqs = [(0, ''A''), (1, ''C'')], edgeVector = [(0, 1)]\<rparr>)"
proof -
  have a: "loadFromTxt (Some txtExample) = Inr \<lparr>currentRow = 3, totalVertices = 2, vertexSeqs = [(0, ''A''), (1, ''C'')], edgeVector = [(0, 1)]\<rparr>"
    by code_simp
  have b: "(0::nat) < 1" by simp
  have c: "1 < length (getlines [] txtExample)" by code_simp
  have d: "''1'' \<in> set (butlast (splitTokens [] (getlines [] txtExample ! 1)))" by code_simp
  have e: "stoi ''1'' = Inr 1" by code_simp
  have f: "(0::int) \<le> 1" by simp
  from loadFromTxt_records_token_unchanged [OF a b c d e f] a b c d e f show ?thesis by blast
qed

text \<open>
  C8 (as stated, refuted). In the two-vertex file the line of vertex 1 carries the
  neighbour token \<open>1\<close>; the loader records the edge \<open>(0, 1)\<close> and not the rebased
  edge \<open>(1 - 1, 1 - 1)\<close>.
\<close>

theorem loadFromTxt_rebase_counterexample:
  "getlines [] txtExample ! 1 = ''1 A'' \<and> splitTokens [] ''1 A'' = [''1'', ''A''] \<and> stoi ''1'' = Inr 1 \<and>
   loadFromTxt (Some txtExample) = Inr \<lparr>currentRow = 3, totalVertices = 2, vertexSeqs = [(0, ''A''), (1, ''C'')], edgeVector = [(0, 1)]\<rparr> \<and>
   (1 - 1, 1 - 1) \<notin> set [(0::nat, 1::nat)]"
  by code_simp

end
